theory Spec2Isabelle
  imports Main
begin

section \<open>Storage, pointers and exceptions\<close>

text \<open>
  The header \<^verbatim>\<open>vector.h\<close> separates allocation from object lifetime. A slot of an
  allocated block is either raw storage or holds a live object; a block is the list of
  its slots. A pointer names a block and an index into it. The element type \<^verbatim>\<open>T\<close> is a
  type variable; what the code asks of it (value initialisation, the state a move leaves
  behind, and the three type traits the code or its comments branch on) is a record of
  parameters.

  Sizes and capacities are natural numbers. The number of bytes that \<^verbatim>\<open>Allocate\<close>
  asks for is computed in \<^verbatim>\<open>size_t\<close> from a number of elements that may be an
  argument of the caller, and wraps around as it does in the code.
\<close>

datatype 'a cell = Raw | Obj 'a

datatype ptr = Null | Ptr nat nat

datatype exn = BadAlloc | ElemThrow

text \<open>
  A call returns normally with a result and the new state, leaves by an exception with
  the state at the throw, or breaks a precondition of the language or the library
  (a failed \<^verbatim>\<open>assert\<close>, an access outside a block or to a slot in the wrong state,
  an invalid iterator range, a bad \<^verbatim>\<open>operator delete\<close>), after which nothing is known.
\<close>

datatype ('r, 's) outcome = Ok 'r 's | Throw exn 's | Undefined

text \<open>
  The world: the live blocks of the free store, the next fresh block address, and a
  script of the operations that may throw (allocations and element constructors and
  assignments), consumed one entry per such operation; \<open>True\<close> makes the operation
  throw, and an exhausted script lets everything succeed. The world also records
  \<^verbatim>\<open>sizeof(T)\<close>, the size in bytes of one element, which no operation changes.
\<close>

record 'a world =
  blocks :: "nat \<Rightarrow> 'a cell list option"
  next_addr :: nat
  faults :: "bool list"
  sizeof_T :: nat

record 'a traits =
  value_init :: 'a
  moved_from :: "'a \<Rightarrow> 'a"
  nothrow_move_constructible :: bool
  copy_constructible :: bool
  nothrow_move_assignable :: bool

definition throws_now :: "'a world \<Rightarrow> bool" where
  "throws_now w = (case faults w of [] \<Rightarrow> False | f # fs \<Rightarrow> f)"

definition consume :: "'a world \<Rightarrow> 'a world" where
  "consume w = (case faults w of [] \<Rightarrow> w | f # fs \<Rightarrow> w\<lparr>faults := fs\<rparr>)"

subsection \<open>Pointer arithmetic\<close>

fun ptr_add :: "ptr \<Rightarrow> nat \<Rightarrow> ptr" where
  "ptr_add Null k = Null"
| "ptr_add (Ptr a i) k = Ptr a (i + k)"

fun ptr_pred :: "ptr \<Rightarrow> ptr option" where
  "ptr_pred (Ptr a (Suc i)) = Some (Ptr a i)"
| "ptr_pred p = None"

text \<open>Comparison and difference are defined for pointers into the same block only.\<close>

fun ptr_le :: "ptr \<Rightarrow> ptr \<Rightarrow> bool" where
  "ptr_le Null Null = True"
| "ptr_le (Ptr a i) (Ptr b j) = (a = b \<and> i \<le> j)"
| "ptr_le p q = False"

fun ptr_less :: "ptr \<Rightarrow> ptr \<Rightarrow> bool" where
  "ptr_less (Ptr a i) (Ptr b j) = (a = b \<and> i < j)"
| "ptr_less p q = False"

text \<open>\<open>ptr_diff lst first\<close> is \<^verbatim>\<open>last - first\<close> for a valid range \<^verbatim>\<open>[first, last)\<close>.\<close>

fun ptr_diff :: "ptr \<Rightarrow> ptr \<Rightarrow> nat option" where
  "ptr_diff Null Null = Some 0"
| "ptr_diff (Ptr b j) (Ptr a i) = (if a = b \<and> i \<le> j then Some (j - i) else None)"
| "ptr_diff p q = None"

subsection \<open>Arithmetic on sizes\<close>

text \<open>
  \<^verbatim>\<open>size_t\<close> is taken to have 64 bits. A product computed in \<^verbatim>\<open>size_t\<close> wraps around.
\<close>

definition SIZE_MAX :: nat where
  "SIZE_MAX = 2 ^ 64 - 1"

definition size_t_mul :: "nat \<Rightarrow> nat \<Rightarrow> nat" where
  "size_t_mul a b = (a * b) mod (SIZE_MAX + 1)"

subsection \<open>The free store\<close>

text \<open>
  \<^verbatim>\<open>operator new(bytes)\<close> returns storage of \<open>bytes\<close> bytes, which has room for
  \<open>bytes div sizeof_T w\<close> objects. A block is the list of its slots.
\<close>

definition operator_new :: "'a world \<Rightarrow> nat \<Rightarrow> (ptr, 'a world) outcome" where
  "operator_new w bytes =
     (if throws_now w then Throw BadAlloc (consume w)
      else Ok (Ptr (next_addr w) 0)
             ((consume w)\<lparr>blocks := (blocks w)(next_addr w \<mapsto>
                                       replicate (bytes div sizeof_T w) Raw),
                          next_addr := Suc (next_addr w)\<rparr>))"

definition operator_delete :: "'a world \<Rightarrow> ptr \<Rightarrow> 'a world option" where
  "operator_delete w p =
     (case p of
        Null \<Rightarrow> Some w
      | Ptr a i \<Rightarrow>
          (if i = 0 \<and> blocks w a \<noteq> None then Some (w\<lparr>blocks := (blocks w)(a := None)\<rparr>)
           else None))"

definition cell_at :: "'a world \<Rightarrow> ptr \<Rightarrow> 'a cell option" where
  "cell_at w p =
     (case p of
        Null \<Rightarrow> None
      | Ptr a i \<Rightarrow>
          (case blocks w a of
             None \<Rightarrow> None
           | Some cs \<Rightarrow> if i < length cs then Some (cs ! i) else None))"

definition store :: "'a world \<Rightarrow> ptr \<Rightarrow> 'a cell \<Rightarrow> 'a world" where
  "store w p c =
     (case p of
        Null \<Rightarrow> w
      | Ptr a i \<Rightarrow>
          (case blocks w a of
             None \<Rightarrow> w
           | Some cs \<Rightarrow> w\<lparr>blocks := (blocks w)(a \<mapsto> cs[i := c])\<rparr>))"

subsection \<open>Operations on one element\<close>

text \<open>
  \<open>construct_at can_throw w p x\<close> is the placement new \<^verbatim>\<open>new (p) T(args...)\<close> where
  the constructor call yields the value \<open>x\<close>; \<open>can_throw\<close> says whether that constructor
  may throw.
\<close>

definition construct_at :: "bool \<Rightarrow> 'a world \<Rightarrow> ptr \<Rightarrow> 'a \<Rightarrow> (ptr, 'a world) outcome" where
  "construct_at can_throw w p x =
     (case cell_at w p of
        Some Raw \<Rightarrow>
          (if can_throw then
             (if throws_now w then Throw ElemThrow (consume w)
              else Ok p (store (consume w) p (Obj x)))
           else Ok p (store w p (Obj x)))
      | Some (Obj y) \<Rightarrow> Undefined
      | None \<Rightarrow> Undefined)"

definition copy_construct :: "'a world \<Rightarrow> ptr \<Rightarrow> ptr \<Rightarrow> (ptr, 'a world) outcome" where
  "copy_construct w src dst =
     (case cell_at w src of
        Some (Obj x) \<Rightarrow> construct_at True w dst x
      | Some Raw \<Rightarrow> Undefined
      | None \<Rightarrow> Undefined)"

definition move_construct :: "'a traits \<Rightarrow> 'a world \<Rightarrow> ptr \<Rightarrow> ptr \<Rightarrow> (ptr, 'a world) outcome" where
  "move_construct T w src dst =
     (case cell_at w src of
        Some (Obj x) \<Rightarrow>
          (case cell_at w dst of
             Some Raw \<Rightarrow>
               (if nothrow_move_constructible T then
                  Ok dst (store (store w src (Obj (moved_from T x))) dst (Obj x))
                else if throws_now w then Throw ElemThrow (consume w)
                else Ok dst (store (store (consume w) src (Obj (moved_from T x))) dst (Obj x)))
           | Some (Obj y) \<Rightarrow> Undefined
           | None \<Rightarrow> Undefined)
      | Some Raw \<Rightarrow> Undefined
      | None \<Rightarrow> Undefined)"

definition copy_assign :: "'a world \<Rightarrow> ptr \<Rightarrow> ptr \<Rightarrow> (ptr, 'a world) outcome" where
  "copy_assign w src dst =
     (case cell_at w src of
        Some (Obj x) \<Rightarrow>
          (case cell_at w dst of
             Some (Obj y) \<Rightarrow>
               (if throws_now w then Throw ElemThrow (consume w)
                else Ok dst (store (consume w) dst (Obj x)))
           | Some Raw \<Rightarrow> Undefined
           | None \<Rightarrow> Undefined)
      | Some Raw \<Rightarrow> Undefined
      | None \<Rightarrow> Undefined)"

definition move_assign :: "'a traits \<Rightarrow> 'a world \<Rightarrow> ptr \<Rightarrow> ptr \<Rightarrow> (ptr, 'a world) outcome" where
  "move_assign T w src dst =
     (case cell_at w src of
        Some (Obj x) \<Rightarrow>
          (case cell_at w dst of
             Some (Obj y) \<Rightarrow>
               (if nothrow_move_assignable T then
                  Ok dst (store (store w src (Obj (moved_from T x))) dst (Obj x))
                else if throws_now w then Throw ElemThrow (consume w)
                else Ok dst (store (store (consume w) src (Obj (moved_from T x))) dst (Obj x)))
           | Some Raw \<Rightarrow> Undefined
           | None \<Rightarrow> Undefined)
      | Some Raw \<Rightarrow> Undefined
      | None \<Rightarrow> Undefined)"

definition destroy_at :: "'a world \<Rightarrow> ptr \<Rightarrow> 'a world option" where
  "destroy_at w p =
     (case cell_at w p of
        Some (Obj x) \<Rightarrow> Some (store w p Raw)
      | Some Raw \<Rightarrow> None
      | None \<Rightarrow> None)"

subsection \<open>The library algorithms the header calls\<close>

fun destroy_n :: "'a world \<Rightarrow> ptr \<Rightarrow> nat \<Rightarrow> 'a world option" where
  "destroy_n w first 0 = Some w"
| "destroy_n w first (Suc n) =
     (case destroy_at w first of
        None \<Rightarrow> None
      | Some w1 \<Rightarrow> destroy_n w1 (ptr_add first 1) n)"

definition destroy_range :: "'a world \<Rightarrow> ptr \<Rightarrow> ptr \<Rightarrow> 'a world option" where
  "destroy_range w first lst =
     (case ptr_diff lst first of
        None \<Rightarrow> None
      | Some k \<Rightarrow> destroy_n w first k)"

text \<open>
  The three uninitialized algorithms construct \<open>n\<close> objects from \<open>current\<close> on; when a
  constructor throws they destroy what they built, \<^verbatim>\<open>[d_first, current)\<close>, and rethrow.
\<close>

fun value_construct_loop ::
  "'a traits \<Rightarrow> 'a world \<Rightarrow> ptr \<Rightarrow> ptr \<Rightarrow> nat \<Rightarrow> (ptr, 'a world) outcome" where
  "value_construct_loop T w d_first current 0 = Ok current w"
| "value_construct_loop T w d_first current (Suc n) =
     (case construct_at True w current (value_init T) of
        Ok p w1 \<Rightarrow> value_construct_loop T w1 d_first (ptr_add current 1) n
      | Throw e w1 \<Rightarrow>
          (case destroy_range w1 d_first current of
             None \<Rightarrow> Undefined
           | Some w2 \<Rightarrow> Throw e w2)
      | Undefined \<Rightarrow> Undefined)"

definition uninitialized_value_construct_n ::
  "'a traits \<Rightarrow> 'a world \<Rightarrow> ptr \<Rightarrow> nat \<Rightarrow> (ptr, 'a world) outcome" where
  "uninitialized_value_construct_n T w first n = value_construct_loop T w first first n"

fun copy_construct_loop ::
  "'a world \<Rightarrow> ptr \<Rightarrow> nat \<Rightarrow> ptr \<Rightarrow> ptr \<Rightarrow> (ptr, 'a world) outcome" where
  "copy_construct_loop w first 0 d_first current = Ok current w"
| "copy_construct_loop w first (Suc n) d_first current =
     (case copy_construct w first current of
        Ok p w1 \<Rightarrow> copy_construct_loop w1 (ptr_add first 1) n d_first (ptr_add current 1)
      | Throw e w1 \<Rightarrow>
          (case destroy_range w1 d_first current of
             None \<Rightarrow> Undefined
           | Some w2 \<Rightarrow> Throw e w2)
      | Undefined \<Rightarrow> Undefined)"

definition uninitialized_copy_n ::
  "'a world \<Rightarrow> ptr \<Rightarrow> nat \<Rightarrow> ptr \<Rightarrow> (ptr, 'a world) outcome" where
  "uninitialized_copy_n w first n d_first = copy_construct_loop w first n d_first d_first"

fun move_construct_loop ::
  "'a traits \<Rightarrow> 'a world \<Rightarrow> ptr \<Rightarrow> nat \<Rightarrow> ptr \<Rightarrow> ptr \<Rightarrow> (ptr, 'a world) outcome" where
  "move_construct_loop T w first 0 d_first current = Ok current w"
| "move_construct_loop T w first (Suc n) d_first current =
     (case move_construct T w first current of
        Ok p w1 \<Rightarrow> move_construct_loop T w1 (ptr_add first 1) n d_first (ptr_add current 1)
      | Throw e w1 \<Rightarrow>
          (case destroy_range w1 d_first current of
             None \<Rightarrow> Undefined
           | Some w2 \<Rightarrow> Throw e w2)
      | Undefined \<Rightarrow> Undefined)"

definition uninitialized_move_n ::
  "'a traits \<Rightarrow> 'a world \<Rightarrow> ptr \<Rightarrow> nat \<Rightarrow> ptr \<Rightarrow> (ptr, 'a world) outcome" where
  "uninitialized_move_n T w first n d_first = move_construct_loop T w first n d_first d_first"

text \<open>
  \<^verbatim>\<open>std::copy\<close>, \<^verbatim>\<open>std::move\<close> and \<^verbatim>\<open>std::move_backward\<close> assign over live objects and
  require \<^verbatim>\<open>[first, last)\<close> to be a valid range.
\<close>

fun copy_assign_loop :: "'a world \<Rightarrow> ptr \<Rightarrow> nat \<Rightarrow> ptr \<Rightarrow> (ptr, 'a world) outcome" where
  "copy_assign_loop w first 0 d_first = Ok d_first w"
| "copy_assign_loop w first (Suc n) d_first =
     (case copy_assign w first d_first of
        Ok p w1 \<Rightarrow> copy_assign_loop w1 (ptr_add first 1) n (ptr_add d_first 1)
      | Throw e w1 \<Rightarrow> Throw e w1
      | Undefined \<Rightarrow> Undefined)"

definition std_copy :: "'a world \<Rightarrow> ptr \<Rightarrow> ptr \<Rightarrow> ptr \<Rightarrow> (ptr, 'a world) outcome" where
  "std_copy w first lst d_first =
     (case ptr_diff lst first of
        None \<Rightarrow> Undefined
      | Some n \<Rightarrow> copy_assign_loop w first n d_first)"

fun move_assign_loop ::
  "'a traits \<Rightarrow> 'a world \<Rightarrow> ptr \<Rightarrow> nat \<Rightarrow> ptr \<Rightarrow> (ptr, 'a world) outcome" where
  "move_assign_loop T w first 0 d_first = Ok d_first w"
| "move_assign_loop T w first (Suc n) d_first =
     (case move_assign T w first d_first of
        Ok p w1 \<Rightarrow> move_assign_loop T w1 (ptr_add first 1) n (ptr_add d_first 1)
      | Throw e w1 \<Rightarrow> Throw e w1
      | Undefined \<Rightarrow> Undefined)"

definition std_move ::
  "'a traits \<Rightarrow> 'a world \<Rightarrow> ptr \<Rightarrow> ptr \<Rightarrow> ptr \<Rightarrow> (ptr, 'a world) outcome" where
  "std_move T w first lst d_first =
     (case ptr_diff lst first of
        None \<Rightarrow> Undefined
      | Some n \<Rightarrow> move_assign_loop T w first n d_first)"

fun move_backward_loop ::
  "'a traits \<Rightarrow> 'a world \<Rightarrow> ptr \<Rightarrow> nat \<Rightarrow> ptr \<Rightarrow> (ptr, 'a world) outcome" where
  "move_backward_loop T w lst 0 d_last = Ok d_last w"
| "move_backward_loop T w lst (Suc n) d_last =
     (case ptr_pred lst of
        None \<Rightarrow> Undefined
      | Some l \<Rightarrow>
          (case ptr_pred d_last of
             None \<Rightarrow> Undefined
           | Some d \<Rightarrow>
               (case move_assign T w l d of
                  Ok p w1 \<Rightarrow> move_backward_loop T w1 l n d
                | Throw e w1 \<Rightarrow> Throw e w1
                | Undefined \<Rightarrow> Undefined)))"

definition std_move_backward ::
  "'a traits \<Rightarrow> 'a world \<Rightarrow> ptr \<Rightarrow> ptr \<Rightarrow> ptr \<Rightarrow> (ptr, 'a world) outcome" where
  "std_move_backward T w first lst d_last =
     (case ptr_diff lst first of
        None \<Rightarrow> Undefined
      | Some n \<Rightarrow> move_backward_loop T w lst n d_last)"

text \<open>
  The new-expression \<^verbatim>\<open>new T(args...)\<close>: allocate \<^verbatim>\<open>sizeof(T)\<close> bytes, construct in
  them, and give the storage back if the constructor throws.
\<close>

definition new_T :: "bool \<Rightarrow> 'a world \<Rightarrow> 'a \<Rightarrow> (ptr, 'a world) outcome" where
  "new_T can_throw w x =
     (case operator_new w (sizeof_T w) of
        Ok p w1 \<Rightarrow>
          (case construct_at can_throw w1 p x of
             Ok q w2 \<Rightarrow> Ok q w2
           | Throw e w2 \<Rightarrow>
               (case operator_delete w2 p of
                  None \<Rightarrow> Undefined
                | Some w3 \<Rightarrow> Throw e w3)
           | Undefined \<Rightarrow> Undefined)
      | Throw e w1 \<Rightarrow> Throw e w1
      | Undefined \<Rightarrow> Undefined)"

section \<open>RawMemory\<close>

text \<open>
  The members \<^verbatim>\<open>buffer_\<close>, \<^verbatim>\<open>capacity_\<close>, \<^verbatim>\<open>data_\<close> and \<^verbatim>\<open>size_\<close> are the
  fields \<open>buffer_m\<close>, \<open>capacity_m\<close>, \<open>data_m\<close> and \<open>size_m\<close>.
\<close>

record RawMemory =
  buffer_m :: ptr
  capacity_m :: nat

text \<open>
  Where the code compares \<^verbatim>\<open>this\<close> with the address of its argument, the argument
  of the model says whether it is the object itself or another object.
\<close>

datatype 'o operand = Itself | Another 'o

text \<open>
  \<^verbatim>\<open>Allocate\<close> computes \<^verbatim>\<open>n * sizeof(T)\<close> in \<^verbatim>\<open>size_t\<close>, with no check that the
  product fits.
\<close>

definition Allocate :: "'a world \<Rightarrow> nat \<Rightarrow> (ptr, 'a world) outcome" where
  "Allocate w n =
     (if n \<noteq> 0 then operator_new w (size_t_mul n (sizeof_T w)) else Ok Null w)"

definition Deallocate :: "'a world \<Rightarrow> ptr \<Rightarrow> 'a world option" where
  "Deallocate w buf = operator_delete w buf"

definition RawMemory_default :: RawMemory where
  "RawMemory_default = \<lparr>buffer_m = Null, capacity_m = 0\<rparr>"

definition RawMemory_ctor :: "'a world \<Rightarrow> nat \<Rightarrow> (RawMemory, 'a world) outcome" where
  "RawMemory_ctor w capacity =
     (case Allocate w capacity of
        Ok p w1 \<Rightarrow> Ok \<lparr>buffer_m = p, capacity_m = capacity\<rparr> w1
      | Throw e w1 \<Rightarrow> Throw e w1
      | Undefined \<Rightarrow> Undefined)"

text \<open>The move constructor returns the new object and what is left of the source.\<close>

definition RawMemory_move_ctor :: "RawMemory \<Rightarrow> RawMemory \<times> RawMemory" where
  "RawMemory_move_ctor other =
     (\<lparr>buffer_m = buffer_m other, capacity_m = capacity_m other\<rparr>,
      other\<lparr>capacity_m := 0, buffer_m := Null\<rparr>)"

definition RawMemory_Swap :: "RawMemory \<Rightarrow> RawMemory \<Rightarrow> RawMemory \<times> RawMemory" where
  "RawMemory_Swap this other =
     (this\<lparr>buffer_m := buffer_m other, capacity_m := capacity_m other\<rparr>,
      other\<lparr>buffer_m := buffer_m this, capacity_m := capacity_m this\<rparr>)"

definition RawMemory_move_assign ::
  "RawMemory \<Rightarrow> RawMemory operand \<Rightarrow> RawMemory \<times> RawMemory operand" where
  "RawMemory_move_assign this rhs =
     (case rhs of
        Itself \<Rightarrow> (this, Itself)
      | Another r \<Rightarrow> (fst (RawMemory_Swap this r), Another (snd (RawMemory_Swap this r))))"

definition RawMemory_dtor :: "'a world \<Rightarrow> RawMemory \<Rightarrow> 'a world option" where
  "RawMemory_dtor w this = Deallocate w (buffer_m this)"

definition RawMemory_plus :: "RawMemory \<Rightarrow> nat \<Rightarrow> ptr option" where
  "RawMemory_plus this offset =
     (if offset \<le> capacity_m this then Some (ptr_add (buffer_m this) offset) else None)"

definition RawMemory_index :: "RawMemory \<Rightarrow> nat \<Rightarrow> ptr option" where
  "RawMemory_index this index =
     (if index < capacity_m this then Some (ptr_add (buffer_m this) index) else None)"

definition GetAddress :: "RawMemory \<Rightarrow> ptr" where
  "GetAddress this = buffer_m this"

definition RawMemory_Capacity :: "RawMemory \<Rightarrow> nat" where
  "RawMemory_Capacity this = capacity_m this"

section \<open>Vector\<close>

record Vector =
  data_m :: RawMemory
  size_m :: nat

definition Size :: "Vector \<Rightarrow> nat" where
  "Size this = size_m this"

definition Capacity :: "Vector \<Rightarrow> nat" where
  "Capacity this = RawMemory_Capacity (data_m this)"

definition Vector_begin :: "Vector \<Rightarrow> ptr" where
  "Vector_begin this = GetAddress (data_m this)"

definition Vector_end :: "Vector \<Rightarrow> ptr option" where
  "Vector_end this = RawMemory_plus (data_m this) (size_m this)"

definition Vector_index :: "Vector \<Rightarrow> nat \<Rightarrow> ptr option" where
  "Vector_index this index =
     (if index < size_m this then RawMemory_index (data_m this) index else None)"

definition Vector_default :: Vector where
  "Vector_default = \<lparr>data_m = RawMemory_default, size_m = 0\<rparr>"

text \<open>
  A constructor body that throws unwinds the members already built: \<^verbatim>\<open>data_\<close> is
  released by its destructor.
\<close>

definition Vector_sized :: "'a traits \<Rightarrow> 'a world \<Rightarrow> nat \<Rightarrow> (Vector, 'a world) outcome" where
  "Vector_sized T w n =
     (case RawMemory_ctor w n of
        Throw e w1 \<Rightarrow> Throw e w1
      | Undefined \<Rightarrow> Undefined
      | Ok d w1 \<Rightarrow>
          (case uninitialized_value_construct_n T w1 (GetAddress d) n of
             Ok p w2 \<Rightarrow> Ok \<lparr>data_m = d, size_m = n\<rparr> w2
           | Throw e w2 \<Rightarrow>
               (case RawMemory_dtor w2 d of
                  None \<Rightarrow> Undefined
                | Some w3 \<Rightarrow> Throw e w3)
           | Undefined \<Rightarrow> Undefined))"

definition Vector_copy_ctor :: "'a world \<Rightarrow> Vector \<Rightarrow> (Vector, 'a world) outcome" where
  "Vector_copy_ctor w other =
     (case RawMemory_ctor w (size_m other) of
        Throw e w1 \<Rightarrow> Throw e w1
      | Undefined \<Rightarrow> Undefined
      | Ok d w1 \<Rightarrow>
          (case uninitialized_copy_n w1 (GetAddress (data_m other)) (size_m other) (GetAddress d) of
             Ok p w2 \<Rightarrow> Ok \<lparr>data_m = d, size_m = size_m other\<rparr> w2
           | Throw e w2 \<Rightarrow>
               (case RawMemory_dtor w2 d of
                  None \<Rightarrow> Undefined
                | Some w3 \<Rightarrow> Throw e w3)
           | Undefined \<Rightarrow> Undefined))"

definition Vector_move_ctor :: "Vector \<Rightarrow> Vector \<times> Vector" where
  "Vector_move_ctor other =
     (\<lparr>data_m = fst (RawMemory_move_ctor (data_m other)), size_m = size_m other\<rparr>,
      other\<lparr>data_m := snd (RawMemory_move_ctor (data_m other)), size_m := 0\<rparr>)"

definition Vector_Swap :: "Vector \<Rightarrow> Vector \<Rightarrow> Vector \<times> Vector" where
  "Vector_Swap this other =
     (this\<lparr>data_m := fst (RawMemory_Swap (data_m this) (data_m other)), size_m := size_m other\<rparr>,
      other\<lparr>data_m := snd (RawMemory_Swap (data_m this) (data_m other)), size_m := size_m this\<rparr>)"

definition Vector_dtor :: "'a world \<Rightarrow> Vector \<Rightarrow> 'a world option" where
  "Vector_dtor w this =
     (case destroy_n w (GetAddress (data_m this)) (size_m this) of
        None \<Rightarrow> None
      | Some w1 \<Rightarrow> RawMemory_dtor w1 (data_m this))"

definition CopyOrMove ::
  "'a traits \<Rightarrow> 'a world \<Rightarrow> ptr \<Rightarrow> nat \<Rightarrow> ptr \<Rightarrow> (ptr, 'a world) outcome" where
  "CopyOrMove T w from num to =
     (if nothrow_move_constructible T \<or> \<not> copy_constructible T
      then uninitialized_move_n T w from num to
      else uninitialized_copy_n w from num to)"

text \<open>
  \<^verbatim>\<open>CopySwap\<close> changes both \<^verbatim>\<open>*this\<close> and its argument, so its state holds both.
\<close>

definition CopySwap ::
  "'a traits \<Rightarrow> Vector \<Rightarrow> 'a world \<Rightarrow> RawMemory
     \<Rightarrow> (unit, Vector \<times> RawMemory \<times> 'a world) outcome" where
  "CopySwap T this w new_data =
     (case CopyOrMove T w (GetAddress (data_m this)) (size_m this) (GetAddress new_data) of
        Throw e w1 \<Rightarrow> Throw e (this, new_data, w1)
      | Undefined \<Rightarrow> Undefined
      | Ok p w1 \<Rightarrow>
          (case destroy_n w1 (GetAddress (data_m this)) (size_m this) of
             None \<Rightarrow> Undefined
           | Some w2 \<Rightarrow>
               Ok () (this\<lparr>data_m := snd (RawMemory_Swap new_data (data_m this))\<rparr>,
                      fst (RawMemory_Swap new_data (data_m this)), w2)))"

definition Reserve ::
  "'a traits \<Rightarrow> Vector \<Rightarrow> 'a world \<Rightarrow> nat \<Rightarrow> (unit, Vector \<times> 'a world) outcome" where
  "Reserve T this w new_capacity =
     (if new_capacity > Capacity this then
        (case RawMemory_ctor w new_capacity of
           Throw e w1 \<Rightarrow> Throw e (this, w1)
         | Undefined \<Rightarrow> Undefined
         | Ok new_data w1 \<Rightarrow>
             (case CopySwap T this w1 new_data of
                Throw e (this1, nd1, w2) \<Rightarrow>
                  (case RawMemory_dtor w2 nd1 of
                     None \<Rightarrow> Undefined
                   | Some w3 \<Rightarrow> Throw e (this1, w3))
              | Undefined \<Rightarrow> Undefined
              | Ok u (this1, nd1, w2) \<Rightarrow>
                  (case RawMemory_dtor w2 nd1 of
                     None \<Rightarrow> Undefined
                   | Some w3 \<Rightarrow> Ok () (this1, w3))))
      else Ok () (this, w))"

definition OpAssignRhsSizeLessCap ::
  "Vector \<Rightarrow> 'a world \<Rightarrow> Vector \<Rightarrow> (unit, Vector \<times> 'a world) outcome" where
  "OpAssignRhsSizeLessCap this w rhs =
     (case RawMemory_plus (data_m rhs) (min (size_m rhs) (size_m this)) of
        None \<Rightarrow> Undefined
      | Some rl \<Rightarrow>
          (case std_copy w (GetAddress (data_m rhs)) rl (GetAddress (data_m this)) of
             Throw e w1 \<Rightarrow> Throw e (this, w1)
           | Undefined \<Rightarrow> Undefined
           | Ok p w1 \<Rightarrow>
               (case (if size_m rhs < size_m this then
                        (case RawMemory_plus (data_m this) (size_m rhs) of
                           None \<Rightarrow> None
                         | Some t \<Rightarrow> destroy_n w1 t (size_m this - size_m rhs))
                      else Some w1) of
                  None \<Rightarrow> Undefined
                | Some w2 \<Rightarrow>
                    (if size_m rhs > size_m this then
                       (case RawMemory_plus (data_m rhs) (size_m this) of
                          None \<Rightarrow> Undefined
                        | Some rs \<Rightarrow>
                            (case RawMemory_plus (data_m this) (size_m this) of
                               None \<Rightarrow> Undefined
                             | Some t \<Rightarrow>
                                 (case uninitialized_copy_n w2 rs (size_m rhs - size_m this) t of
                                    Throw e w3 \<Rightarrow> Throw e (this, w3)
                                  | Undefined \<Rightarrow> Undefined
                                  | Ok q w3 \<Rightarrow> Ok () (this, w3))))
                     else Ok () (this, w2)))))"

text \<open>
  Copy assignment. The temporary \<^verbatim>\<open>to_copy\<close> is destroyed at the end of its block,
  holding what \<^verbatim>\<open>*this\<close> held before the swap.
\<close>

definition Vector_copy_assign ::
  "Vector \<Rightarrow> 'a world \<Rightarrow> Vector operand \<Rightarrow> (unit, Vector \<times> 'a world) outcome" where
  "Vector_copy_assign this w rhs_arg =
     (case rhs_arg of
        Itself \<Rightarrow> Ok () (this, w)
      | Another rhs \<Rightarrow>
          (if size_m rhs > Capacity this then
             (case Vector_copy_ctor w rhs of
                Throw e w1 \<Rightarrow> Throw e (this, w1)
              | Undefined \<Rightarrow> Undefined
              | Ok to_copy w1 \<Rightarrow>
                  (case Vector_dtor w1 (snd (Vector_Swap this to_copy)) of
                     None \<Rightarrow> Undefined
                   | Some w2 \<Rightarrow> Ok () ((fst (Vector_Swap this to_copy))\<lparr>size_m := size_m rhs\<rparr>, w2)))
           else
             (case OpAssignRhsSizeLessCap this w rhs of
                Throw e s \<Rightarrow> Throw e s
              | Undefined \<Rightarrow> Undefined
              | Ok u (this1, w1) \<Rightarrow> Ok () (this1\<lparr>size_m := size_m rhs\<rparr>, w1))))"

definition Vector_move_assign :: "Vector \<Rightarrow> Vector operand \<Rightarrow> Vector \<times> Vector operand" where
  "Vector_move_assign this rhs =
     (case rhs of
        Itself \<Rightarrow> (this, Itself)
      | Another r \<Rightarrow> (fst (Vector_Swap this r), Another (snd (Vector_Swap this r))))"

definition Resize ::
  "'a traits \<Rightarrow> Vector \<Rightarrow> 'a world \<Rightarrow> nat \<Rightarrow> (unit, Vector \<times> 'a world) outcome" where
  "Resize T this w new_size =
     (if size_m this = new_size then Ok () (this, w)
      else if new_size < size_m this then
        (case RawMemory_plus (data_m this) new_size of
           None \<Rightarrow> Undefined
         | Some p \<Rightarrow>
             (case destroy_n w p (size_m this - new_size) of
                None \<Rightarrow> Undefined
              | Some w1 \<Rightarrow> Ok () (this\<lparr>size_m := new_size\<rparr>, w1)))
      else
        (case Reserve T this w new_size of
           Throw e s \<Rightarrow> Throw e s
         | Undefined \<Rightarrow> Undefined
         | Ok u (this1, w1) \<Rightarrow>
             (case RawMemory_plus (data_m this1) (size_m this1) of
                None \<Rightarrow> Undefined
              | Some p \<Rightarrow>
                  (case uninitialized_value_construct_n T w1 p (new_size - size_m this1) of
                     Throw e w2 \<Rightarrow> Throw e (this1, w2)
                   | Undefined \<Rightarrow> Undefined
                   | Ok q w2 \<Rightarrow> Ok () (this1\<lparr>size_m := new_size\<rparr>, w2)))))"

text \<open>
  \<^verbatim>\<open>PushBackU\<close> takes the lambda that builds the new element at \<^verbatim>\<open>dest + size_\<close>.
  The new buffer is local: it is released when the block is left, by return (holding the
  old buffer after the swap) or by exception.
\<close>

definition PushBackU ::
  "'a traits \<Rightarrow> Vector \<Rightarrow> 'a world \<Rightarrow> ('a world \<Rightarrow> ptr \<Rightarrow> (ptr, 'a world) outcome)
     \<Rightarrow> (ptr, Vector \<times> 'a world) outcome" where
  "PushBackU T this w copy_move =
     (if size_m this \<noteq> Capacity this then
        (case copy_move w (GetAddress (data_m this)) of
           Throw e w1 \<Rightarrow> Throw e (this, w1)
         | Undefined \<Rightarrow> Undefined
         | Ok res w1 \<Rightarrow> Ok res (this\<lparr>size_m := size_m this + 1\<rparr>, w1))
      else
        (case RawMemory_ctor w (if size_m this = 0 then 1 else size_m this * 2) of
           Throw e w1 \<Rightarrow> Throw e (this, w1)
         | Undefined \<Rightarrow> Undefined
         | Ok new_data w1 \<Rightarrow>
             (case copy_move w1 (GetAddress new_data) of
                Throw e w2 \<Rightarrow>
                  (case RawMemory_dtor w2 new_data of
                     None \<Rightarrow> Undefined
                   | Some w3 \<Rightarrow> Throw e (this, w3))
              | Undefined \<Rightarrow> Undefined
              | Ok res w2 \<Rightarrow>
                  (case CopySwap T this w2 new_data of
                     Throw e (this1, nd1, w3) \<Rightarrow>
                       (case RawMemory_dtor w3 nd1 of
                          None \<Rightarrow> Undefined
                        | Some w4 \<Rightarrow> Throw e (this1, w4))
                   | Undefined \<Rightarrow> Undefined
                   | Ok u (this1, nd1, w3) \<Rightarrow>
                       (case RawMemory_dtor w3 nd1 of
                          None \<Rightarrow> Undefined
                        | Some w4 \<Rightarrow> Ok res (this1\<lparr>size_m := size_m this1 + 1\<rparr>, w4))))))"

text \<open>
  The three callers. The argument \<open>x\<close> is the value of the new element; the copy
  constructor may throw, the move constructor only when it is not \<^verbatim>\<open>noexcept\<close>, and
  the constructor \<^verbatim>\<open>T(args...)\<close> of \<^verbatim>\<open>EmplaceBack\<close> as \<open>can_throw\<close> says.
\<close>

definition PushBack ::
  "'a traits \<Rightarrow> Vector \<Rightarrow> 'a world \<Rightarrow> 'a \<Rightarrow> (ptr, Vector \<times> 'a world) outcome" where
  "PushBack T this w x =
     (case PushBackU T this w (\<lambda>w' dest. construct_at True w' (ptr_add dest (size_m this)) x) of
        Ok res s \<Rightarrow> Ok Null s
      | Throw e s \<Rightarrow> Throw e s
      | Undefined \<Rightarrow> Undefined)"

definition PushBack_rvalue ::
  "'a traits \<Rightarrow> Vector \<Rightarrow> 'a world \<Rightarrow> 'a \<Rightarrow> (ptr, Vector \<times> 'a world) outcome" where
  "PushBack_rvalue T this w x =
     (case PushBackU T this w
             (\<lambda>w' dest. construct_at (\<not> nothrow_move_constructible T) w'
                           (ptr_add dest (size_m this)) x) of
        Ok res s \<Rightarrow> Ok Null s
      | Throw e s \<Rightarrow> Throw e s
      | Undefined \<Rightarrow> Undefined)"

definition EmplaceBack ::
  "'a traits \<Rightarrow> bool \<Rightarrow> Vector \<Rightarrow> 'a world \<Rightarrow> 'a \<Rightarrow> (ptr, Vector \<times> 'a world) outcome" where
  "EmplaceBack T can_throw this w x =
     PushBackU T this w (\<lambda>w' dest. construct_at can_throw w' (ptr_add dest (size_m this)) x)"

definition PopBack :: "Vector \<Rightarrow> 'a world \<Rightarrow> (unit, Vector \<times> 'a world) outcome" where
  "PopBack this w =
     (case Vector_end this of
        None \<Rightarrow> Undefined
      | Some e \<Rightarrow>
          (case ptr_pred e of
             None \<Rightarrow> Undefined
           | Some l \<Rightarrow>
               (case destroy_n w l 1 of
                  None \<Rightarrow> Undefined
                | Some w1 \<Rightarrow> Ok () (this\<lparr>size_m := size_m this - 1\<rparr>, w1))))"

text \<open>
  \<^verbatim>\<open>Emplace\<close>. In the first branch the temporary made by \<^verbatim>\<open>new T(...)\<close> is destroyed
  with \<^verbatim>\<open>std::destroy_n\<close> and its storage is not passed to \<^verbatim>\<open>delete\<close>. In the second
  branch the local \<^verbatim>\<open>new_data\<close> is released when the block is left.
\<close>

definition Emplace ::
  "'a traits \<Rightarrow> bool \<Rightarrow> Vector \<Rightarrow> 'a world \<Rightarrow> ptr \<Rightarrow> 'a
     \<Rightarrow> (ptr, Vector \<times> 'a world) outcome" where
  "Emplace T can_throw this w pos x =
     (case Vector_end this of
        None \<Rightarrow> Undefined
      | Some e \<Rightarrow>
          (if \<not> (ptr_le (Vector_begin this) pos \<and> ptr_le pos e) then Undefined
           else if size_m this < Capacity this \<and> size_m this \<noteq> 0 then
             (case new_T can_throw w x of
                Throw ex w1 \<Rightarrow> Throw ex (this, w1)
              | Undefined \<Rightarrow> Undefined
              | Ok tmp w1 \<Rightarrow>
                  (case ptr_pred e of
                     None \<Rightarrow> Undefined
                   | Some l \<Rightarrow>
                       (case CopyOrMove T w1 l 1 e of
                          Throw ex w2 \<Rightarrow> Throw ex (this, w2)
                        | Undefined \<Rightarrow> Undefined
                        | Ok q2 w2 \<Rightarrow>
                            (case std_move_backward T w2 pos l e of
                               Throw ex w3 \<Rightarrow> Throw ex (this, w3)
                             | Undefined \<Rightarrow> Undefined
                             | Ok q3 w3 \<Rightarrow>
                                 (case move_assign T w3 tmp pos of
                                    Throw ex w4 \<Rightarrow> Throw ex (this, w4)
                                  | Undefined \<Rightarrow> Undefined
                                  | Ok q4 w4 \<Rightarrow>
                                      (case destroy_n w4 tmp 1 of
                                         None \<Rightarrow> Undefined
                                       | Some w5 \<Rightarrow>
                                           Ok pos (this\<lparr>size_m := size_m this + 1\<rparr>, w5)))))))
           else
             (case RawMemory_ctor w (if size_m this = 0 then 1 else size_m this * 2) of
                Throw ex w1 \<Rightarrow> Throw ex (this, w1)
              | Undefined \<Rightarrow> Undefined
              | Ok new_data w1 \<Rightarrow>
                  (case ptr_diff pos (GetAddress (data_m this)) of
                     None \<Rightarrow> Undefined
                   | Some dist \<Rightarrow>
                       (case RawMemory_plus new_data dist of
                          None \<Rightarrow> Undefined
                        | Some np \<Rightarrow>
                            (case construct_at can_throw w1 np x of
                               Throw ex w2 \<Rightarrow>
                                 (case RawMemory_dtor w2 new_data of
                                    None \<Rightarrow> Undefined
                                  | Some w3 \<Rightarrow> Throw ex (this, w3))
                             | Undefined \<Rightarrow> Undefined
                             | Ok res w2 \<Rightarrow>
                                 (case (if size_m this \<noteq> 0 then
                                          (case CopyOrMove T w2 (GetAddress (data_m this)) dist
                                                  (GetAddress new_data) of
                                             Throw ex w3 \<Rightarrow> Throw ex w3
                                           | Undefined \<Rightarrow> Undefined
                                           | Ok q3 w3 \<Rightarrow>
                                               (case CopyOrMove T w3 pos (size_m this - dist)
                                                       (ptr_add np 1) of
                                                  Throw ex w4 \<Rightarrow> Throw ex w4
                                                | Undefined \<Rightarrow> Undefined
                                                | Ok q4 w4 \<Rightarrow>
                                                    (case destroy_n w4 (GetAddress (data_m this))
                                                            (size_m this) of
                                                       None \<Rightarrow> Undefined
                                                     | Some w5 \<Rightarrow> Ok res w5)))
                                        else Ok res w2) of
                                    Throw ex w5 \<Rightarrow>
                                      (case RawMemory_dtor w5 new_data of
                                         None \<Rightarrow> Undefined
                                       | Some w6 \<Rightarrow> Throw ex (this, w6))
                                  | Undefined \<Rightarrow> Undefined
                                  | Ok r w5 \<Rightarrow>
                                      (case RawMemory_dtor w5
                                              (fst (RawMemory_Swap new_data (data_m this))) of
                                         None \<Rightarrow> Undefined
                                       | Some w6 \<Rightarrow>
                                           Ok res
                                             (this\<lparr>data_m :=
                                                     snd (RawMemory_Swap new_data (data_m this)),
                                                   size_m := size_m this + 1\<rparr>, w6)))))))))"

definition Erase ::
  "'a traits \<Rightarrow> Vector \<Rightarrow> 'a world \<Rightarrow> ptr \<Rightarrow> (ptr, Vector \<times> 'a world) outcome" where
  "Erase T this w pos =
     (case Vector_end this of
        None \<Rightarrow> Undefined
      | Some e \<Rightarrow>
          (if \<not> (ptr_le (Vector_begin this) pos \<and> ptr_less pos e) then Undefined
           else
             (case std_move T w (ptr_add pos 1) e pos of
                Throw ex w1 \<Rightarrow> Throw ex (this, w1)
              | Undefined \<Rightarrow> Undefined
              | Ok q w1 \<Rightarrow>
                  (case ptr_pred e of
                     None \<Rightarrow> Undefined
                   | Some l \<Rightarrow>
                       (case destroy_n w1 l 1 of
                          None \<Rightarrow> Undefined
                        | Some w2 \<Rightarrow> Ok pos (this\<lparr>size_m := size_m this - 1\<rparr>, w2))))))"

definition Insert ::
  "'a traits \<Rightarrow> Vector \<Rightarrow> 'a world \<Rightarrow> ptr \<Rightarrow> 'a \<Rightarrow> (ptr, Vector \<times> 'a world) outcome" where
  "Insert T this w pos x = Emplace T True this w pos x"

definition Insert_rvalue ::
  "'a traits \<Rightarrow> Vector \<Rightarrow> 'a world \<Rightarrow> ptr \<Rightarrow> 'a \<Rightarrow> (ptr, Vector \<times> 'a world) outcome" where
  "Insert_rvalue T this w pos x = Emplace T (\<not> nothrow_move_constructible T) this w pos x"

section \<open>Sequences of appends\<close>

text \<open>
  One tail insertion: \<^verbatim>\<open>PushBack(const T&)\<close>, \<^verbatim>\<open>PushBack(T&&)\<close> or
  \<^verbatim>\<open>EmplaceBack(args...)\<close>, with the value of the new element; and a run of them,
  which stops at the first that does not return.
\<close>

datatype 'a append_op = PushCopy 'a | PushMove 'a | EmplaceArgs bool 'a

fun appended :: "'a append_op \<Rightarrow> 'a" where
  "appended (PushCopy x) = x"
| "appended (PushMove x) = x"
| "appended (EmplaceArgs ct x) = x"

fun append_one ::
  "'a traits \<Rightarrow> Vector \<Rightarrow> 'a world \<Rightarrow> 'a append_op \<Rightarrow> (ptr, Vector \<times> 'a world) outcome" where
  "append_one T v w (PushCopy x) = PushBack T v w x"
| "append_one T v w (PushMove x) = PushBack_rvalue T v w x"
| "append_one T v w (EmplaceArgs ct x) = EmplaceBack T ct v w x"

fun appends ::
  "'a traits \<Rightarrow> Vector \<Rightarrow> 'a world \<Rightarrow> 'a append_op list \<Rightarrow> (unit, Vector \<times> 'a world) outcome" where
  "appends T v w [] = Ok () (v, w)"
| "appends T v w (a # as) =
     (case append_one T v w a of
        Ok r (v1, w1) \<Rightarrow> appends T v1 w1 as
      | Throw e s \<Rightarrow> Throw e s
      | Undefined \<Rightarrow> Undefined)"

definition capacity_after :: "'a traits \<Rightarrow> 'a world \<Rightarrow> 'a append_op list \<Rightarrow> nat option" where
  "capacity_after T w as =
     (case appends T Vector_default w as of
        Ok u (v, w') \<Rightarrow> Some (Capacity v)
      | Throw e s \<Rightarrow> None
      | Undefined \<Rightarrow> None)"

text \<open>\<open>tight n c\<close>: \<open>c\<close> is 0 for \<open>n = 0\<close>, and else the power of two with \<open>c / 2 < n \<le> c\<close>.\<close>

definition tight :: "nat \<Rightarrow> nat \<Rightarrow> bool" where
  "tight n c = ((n = 0 \<and> c = 0) \<or> (\<exists>m. c = 2 ^ m \<and> n \<le> c \<and> c < 2 * n))"

section \<open>The state invariants\<close>

text \<open>
  The buffer address is non-null exactly when the capacity is positive, and the size of
  a vector does not exceed its capacity (sizes are natural numbers, so \<open>0 \<le> size\<close>
  always holds).
\<close>

definition RawMemory_inv :: "RawMemory \<Rightarrow> bool" where
  "RawMemory_inv m = ((buffer_m m \<noteq> Null) = (0 < capacity_m m))"

definition Vector_inv :: "Vector \<Rightarrow> bool" where
  "Vector_inv v = (RawMemory_inv (data_m v) \<and> size_m v \<le> capacity_m (data_m v))"

text \<open>
  \<open>ends_in P r\<close>: the state in which the call ended, by return or by exception,
  satisfies \<open>P\<close>. \<open>builds P r\<close>: the object a constructor returned satisfies \<open>P\<close>
  (a constructor that throws builds no object). \<open>operand_all P\<close> lifts \<open>P\<close> to an
  argument that may be the object itself.
\<close>

definition ends_in :: "('s \<Rightarrow> bool) \<Rightarrow> ('r, 's) outcome \<Rightarrow> bool" where
  "ends_in P r = (case r of Ok x s \<Rightarrow> P s | Throw e s \<Rightarrow> P s | Undefined \<Rightarrow> True)"

definition builds :: "('r \<Rightarrow> bool) \<Rightarrow> ('r, 's) outcome \<Rightarrow> bool" where
  "builds P r = (case r of Ok x s \<Rightarrow> P x | Throw e s \<Rightarrow> True | Undefined \<Rightarrow> True)"

definition operand_all :: "('o \<Rightarrow> bool) \<Rightarrow> 'o operand \<Rightarrow> bool" where
  "operand_all P x = (case x of Itself \<Rightarrow> True | Another y \<Rightarrow> P y)"

section \<open>What a vector holds\<close>

text \<open>
  \<open>holds w v xs\<close>: in the world \<open>w\<close> the vector \<open>v\<close> has the element sequence \<open>xs\<close>, its
  first \<open>size_m\<close> slots being live with these values and the slots up to the capacity raw.
\<close>

definition layout :: "'a list \<Rightarrow> nat \<Rightarrow> 'a cell list" where
  "layout xs cap = map Obj xs @ replicate (cap - length xs) Raw"

definition holds :: "'a world \<Rightarrow> Vector \<Rightarrow> 'a list \<Rightarrow> bool" where
  "holds w v xs =
     (size_m v = length xs \<and> length xs \<le> capacity_m (data_m v) \<and>
      (case buffer_m (data_m v) of
         Null \<Rightarrow> capacity_m (data_m v) = 0
       | Ptr a i \<Rightarrow> i = 0 \<and> 0 < capacity_m (data_m v) \<and>
                    blocks w a = Some (layout xs (capacity_m (data_m v)))))"

text \<open>The world with block \<open>a\<close> holding \<open>cs\<close>, and the world without block \<open>a\<close>.\<close>

definition with_block :: "'a world \<Rightarrow> nat \<Rightarrow> 'a cell list \<Rightarrow> 'a world" where
  "with_block w a cs = w\<lparr>blocks := (blocks w)(a \<mapsto> cs)\<rparr>"

definition without_block :: "'a world \<Rightarrow> nat \<Rightarrow> 'a world" where
  "without_block w a = w\<lparr>blocks := (blocks w)(a := None)\<rparr>"

text \<open>The world after one more address was handed out.\<close>

definition bump :: "'a world \<Rightarrow> 'a world" where
  "bump w = w\<lparr>next_addr := Suc (next_addr w)\<rparr>"

text \<open>The world after the block behind \<open>p\<close>, if any, was released.\<close>

definition freed :: "'a world \<Rightarrow> ptr \<Rightarrow> 'a world" where
  "freed w p = (case p of Null \<Rightarrow> w | Ptr a i \<Rightarrow> without_block w a)"

text \<open>What \<^verbatim>\<open>CopyOrMove\<close> leaves in a source slot holding \<open>x\<close>.\<close>

definition residue :: "'a traits \<Rightarrow> 'a \<Rightarrow> 'a" where
  "residue T x =
     (if nothrow_move_constructible T \<or> \<not> copy_constructible T then moved_from T x else x)"

text \<open>\<open>only_block b w w'\<close>: the blocks of \<open>w'\<close> are those of \<open>w\<close>, except possibly block \<open>b\<close>.\<close>

definition only_block :: "nat \<Rightarrow> 'a world \<Rightarrow> 'a world \<Rightarrow> bool" where
  "only_block b w w' = (\<forall>c. c \<noteq> b \<longrightarrow> blocks w' c = blocks w c)"

text \<open>
  \<open>fits w n\<close>: the size in bytes of \<open>n\<close> elements is a value of \<^verbatim>\<open>size_t\<close> (and an
  element has a positive size).
\<close>

definition fits :: "'a world \<Rightarrow> nat \<Rightarrow> bool" where
  "fits w n = (0 < sizeof_T w \<and> n * sizeof_T w \<le> SIZE_MAX)"

text \<open>
  A well-formed free store. Fresh addresses are fresh: every live block lies below
  \<open>next_addr\<close>. An element, and every live block, has a size in bytes that is a value of
  \<^verbatim>\<open>size_t\<close>: storage comes from \<^verbatim>\<open>operator new\<close>, whose argument is a \<^verbatim>\<open>size_t\<close>.
\<close>

definition heap_ok :: "'a world \<Rightarrow> bool" where
  "heap_ok w =
     (dom (blocks w) \<subseteq> {..<next_addr w} \<and> fits w 1 \<and>
      (\<forall>a cs. blocks w a = Some cs \<longrightarrow> fits w (length cs)))"

section \<open>Sample element types and states\<close>

text \<open>
  A trivially movable element type (a move leaves the source as it was, nothing of it
  throws but construction and copying), and a world whose only block is block 0. The
  elements of the sample worlds have four bytes.
\<close>

definition nat_traits :: "nat traits" where
  "nat_traits = \<lparr>value_init = 0, moved_from = (\<lambda>x. x), nothrow_move_constructible = True,
     copy_constructible = True, nothrow_move_assignable = True\<rparr>"

text \<open>
  An element type that is copied when relocated (its move constructor may throw), and a
  move-only element type whose move constructor may throw and leaves 0 behind.
\<close>

definition copied_traits :: "nat traits" where
  "copied_traits = \<lparr>value_init = 0, moved_from = (\<lambda>x. 0), nothrow_move_constructible = False,
     copy_constructible = True, nothrow_move_assignable = False\<rparr>"

definition move_only_traits :: "nat traits" where
  "move_only_traits = \<lparr>value_init = 0, moved_from = (\<lambda>x. 0),
     nothrow_move_constructible = False, copy_constructible = False,
     nothrow_move_assignable = False\<rparr>"

definition empty_world :: "'a world" where
  "empty_world = \<lparr>blocks = Map.empty, next_addr = 0, faults = [], sizeof_T = 4\<rparr>"

definition world_of :: "'a cell list \<Rightarrow> 'a world" where
  "world_of cs = \<lparr>blocks = [0 \<mapsto> cs], next_addr = 1, faults = [], sizeof_T = 4\<rparr>"

definition world_of2 :: "'a cell list \<Rightarrow> 'a cell list \<Rightarrow> 'a world" where
  "world_of2 cs ds =
     \<lparr>blocks = [0 \<mapsto> cs, 1 \<mapsto> ds], next_addr = 2, faults = [], sizeof_T = 4\<rparr>"

definition vector_at :: "nat \<Rightarrow> nat \<Rightarrow> nat \<Rightarrow> Vector" where
  "vector_at a cap n = \<lparr>data_m = \<lparr>buffer_m = Ptr a 0, capacity_m = cap\<rparr>, size_m = n\<rparr>"

section \<open>Facts about the store and the library loops\<close>

lemma consume_nofault [simp]: "faults w = [] \<Longrightarrow> consume w = w"
  by (simp add: consume_def)

lemma throws_now_nofault [simp]: "faults w = [] \<Longrightarrow> \<not> throws_now w"
  by (simp add: throws_now_def)

lemma blocks_with_block [simp]: "blocks (with_block w a cs) = (blocks w)(a \<mapsto> cs)"
  by (simp add: with_block_def)

lemma faults_with_block [simp]: "faults (with_block w a cs) = faults w"
  by (simp add: with_block_def)

lemma sizeof_T_with_block [simp]: "sizeof_T (with_block w a cs) = sizeof_T w"
  by (simp add: with_block_def)

lemma next_addr_with_block [simp]: "next_addr (with_block w a cs) = next_addr w"
  by (simp add: with_block_def)

lemma with_block_twice [simp]: "with_block (with_block w a cs) a ds = with_block w a ds"
  by (simp add: with_block_def)

lemma with_block_same: "blocks w a = Some cs \<Longrightarrow> with_block w a cs = w"
  by (simp add: with_block_def map_upd_triv)

lemma cell_at_block:
  "blocks w a = Some cs \<Longrightarrow> cell_at w (Ptr a i) = (if i < length cs then Some (cs ! i) else None)"
  by (simp add: cell_at_def)

lemma store_block:
  "blocks w a = Some cs \<Longrightarrow> store w (Ptr a i) c = with_block w a (cs[i := c])"
  by (simp add: store_def with_block_def)

lemma move_assign_loop_shift:
  "blocks w a = Some (pre @ Obj y # map Obj xs @ post) \<Longrightarrow> faults w = [] \<Longrightarrow>
   move_assign_loop T w (Ptr a (Suc (length pre))) (length xs) (Ptr a (length pre)) =
     Ok (Ptr a (length pre + length xs))
        (with_block w a (pre @ map Obj xs @ Obj (if xs = [] then y else moved_from T (last xs)) # post))"
proof (induction xs arbitrary: w pre y)
  case Nil
  then show ?case by (simp add: with_block_same)
next
  case (Cons x xs)
  let ?w1 = "with_block w a ((pre @ [Obj x]) @ Obj (moved_from T x) # map Obj xs @ post)"
  have step: "move_assign T w (Ptr a (Suc (length pre))) (Ptr a (length pre)) = Ok (Ptr a (length pre)) ?w1"
    using Cons.prems
    by (simp add: move_assign_def cell_at_block store_block nth_append list_update_append)
  have "move_assign_loop T ?w1 (Ptr a (Suc (length (pre @ [Obj x])))) (length xs) (Ptr a (length (pre @ [Obj x]))) =
     Ok (Ptr a (length (pre @ [Obj x]) + length xs))
        (with_block ?w1 a ((pre @ [Obj x]) @ map Obj xs @ Obj (if xs = [] then moved_from T x else moved_from T (last xs)) # post))"
    using Cons.prems by (intro Cons.IH) simp_all
  with step show ?case by simp
qed


lemma destroy_n_Suc0: "destroy_n w p (Suc 0) = destroy_at w p"
  by (simp split: option.splits)

lemma destroy_at_block:
  "blocks w a = Some (pre @ Obj z # post) \<Longrightarrow>
   destroy_at w (Ptr a (length pre)) = Some (with_block w a (pre @ Raw # post))"
  by (simp add: destroy_at_def cell_at_block store_block)

lemma Erase_result:
  assumes h: "holds w v xs" and nf: "faults w = []" and p: "p < length xs"
    and buf: "buffer_m (data_m v) = Ptr a 0"
  shows "Erase T v w (Ptr a p) =
     Ok (Ptr a p) (v\<lparr>size_m := length xs - 1\<rparr>,
        with_block w a (layout (take p xs @ drop (Suc p) xs) (capacity_m (data_m v))))"
proof -
  let ?cap = "capacity_m (data_m v)"
  define pre where "pre = map Obj (take p xs)"
  define suf where "suf = drop (Suc p) xs"
  define post where "post = replicate (?cap - length xs) (Raw :: 'a cell)"
  define z where "z = (if suf = [] then xs ! p else moved_from T (last suf))"
  define w1 where "w1 = with_block w a (pre @ map Obj suf @ Obj z # post)"
  from h buf have sz: "size_m v = length xs" and cap: "length xs \<le> ?cap"
    and blk: "blocks w a = Some (layout xs ?cap)"
    by (auto simp: holds_def)
  have lp: "length pre = p" using p by (simp add: pre_def)
  have ls: "length suf = length xs - Suc p" by (simp add: suf_def)
  have "xs = take p xs @ xs ! p # suf"
    using p by (simp add: id_take_nth_drop suf_def)
  then have "layout xs ?cap = map Obj (take p xs @ xs ! p # suf) @ post"
    unfolding layout_def post_def by simp
  then have blk': "blocks w a = Some (pre @ Obj (xs ! p) # map Obj suf @ post)"
    using blk by (simp add: pre_def)
  have "move_assign_loop T w (Ptr a (Suc (length pre))) (length suf) (Ptr a (length pre)) =
          Ok (Ptr a (length pre + length suf)) w1"
    unfolding w1_def z_def using blk' nf by (rule move_assign_loop_shift)
  then have mv: "std_move T w (Ptr a (Suc p)) (Ptr a (length xs)) (Ptr a p) =
      Ok (Ptr a (p + (length xs - Suc p))) w1"
    using p by (simp add: std_move_def lp ls)
  have "blocks w1 a = Some ((pre @ map Obj suf) @ Obj z # post)"
    by (simp add: w1_def)
  then have "destroy_at w1 (Ptr a (length (pre @ map Obj suf))) =
          Some (with_block w1 a ((pre @ map Obj suf) @ Raw # post))"
    by (rule destroy_at_block)
  moreover have "length (pre @ map Obj suf) = length xs - Suc 0"
    using p by (simp add: lp ls)
  moreover have "Raw # post = replicate (?cap - (length xs - Suc 0)) (Raw :: 'a cell)"
    using p cap by (cases "?cap - (length xs - Suc 0)") (auto simp: Suc_diff_le post_def)
  then have "(pre @ map Obj suf) @ Raw # post = layout (take p xs @ drop (Suc p) xs) ?cap"
    using p by (simp add: layout_def min_def pre_def suf_def)
  ultimately have ds: "destroy_at w1 (Ptr a (length xs - Suc 0)) =
      Some (with_block w a (layout (take p xs @ drop (Suc p) xs) ?cap))"
    by (simp add: w1_def)
  have pr: "ptr_pred (Ptr a (length xs)) = Some (Ptr a (length xs - Suc 0))"
    using p by (cases "length xs") simp_all
  show ?thesis
    using p cap
    by (simp add: Erase_def Vector_end_def Vector_begin_def RawMemory_plus_def GetAddress_def
        sz buf mv pr ds destroy_n_Suc0 del: destroy_n.simps)
qed

lemma blocks_bump [simp]: "blocks (bump w) = blocks w"
  by (simp add: bump_def)

lemma faults_bump [simp]: "faults (bump w) = faults w"
  by (simp add: bump_def)

lemma sizeof_T_bump [simp]: "sizeof_T (bump w) = sizeof_T w"
  by (simp add: bump_def)

lemma next_addr_bump [simp]: "next_addr (bump w) = Suc (next_addr w)"
  by (simp add: bump_def)

lemma blocks_without_block [simp]: "blocks (without_block w a) = (blocks w)(a := None)"
  by (simp add: without_block_def)

lemma faults_without_block [simp]: "faults (without_block w a) = faults w"
  by (simp add: without_block_def)

lemma sizeof_T_without_block [simp]: "sizeof_T (without_block w a) = sizeof_T w"
  by (simp add: without_block_def)

lemma next_addr_without_block [simp]: "next_addr (without_block w a) = next_addr w"
  by (simp add: without_block_def)

lemma without_with_same [simp]: "without_block (with_block w a cs) a = without_block w a"
  by (simp add: without_block_def with_block_def)

lemma without_block_absent: "blocks w a = None \<Longrightarrow> without_block w a = w"
proof -
  assume "blocks w a = None"
  then have "(blocks w)(a := None) = blocks w" by (metis fun_upd_triv)
  then show ?thesis by (simp add: without_block_def)
qed

lemma with_block_commute:
  "a \<noteq> b \<Longrightarrow> with_block (with_block w a cs) b ds = with_block (with_block w b ds) a cs"
  by (simp add: with_block_def fun_upd_twist)

lemma without_with_other:
  "a \<noteq> b \<Longrightarrow> without_block (with_block w a cs) b = with_block (without_block w b) a cs"
  by (simp add: with_block_def without_block_def fun_upd_twist)

lemma operator_new_nofault:
  "faults w = [] \<Longrightarrow>
   operator_new w bytes =
     Ok (Ptr (next_addr w) 0)
        (with_block (bump w) (next_addr w) (replicate (bytes div sizeof_T w) Raw))"
  by (simp add: operator_new_def with_block_def bump_def)

lemma fits_slots: "fits w n \<Longrightarrow> size_t_mul n (sizeof_T w) div sizeof_T w = n"
  by (simp add: fits_def size_t_mul_def)

lemma fits_mono: "fits w n \<Longrightarrow> m \<le> n \<Longrightarrow> fits w m"
proof -
  assume f: "fits w n" and le: "m \<le> n"
  from le have "m * sizeof_T w \<le> n * sizeof_T w" by simp
  moreover from f have "0 < sizeof_T w" and "n * sizeof_T w \<le> SIZE_MAX"
    by (simp_all add: fits_def)
  ultimately show ?thesis unfolding fits_def by linarith
qed

lemma fits_same: "sizeof_T w' = sizeof_T w \<Longrightarrow> fits w' n = fits w n"
  by (simp add: fits_def)

lemma heap_ok_fits_one: "heap_ok w \<Longrightarrow> fits w 1"
  by (simp add: heap_ok_def)

lemma heap_ok_sizeof: "heap_ok w \<Longrightarrow> 0 < sizeof_T w"
  by (simp add: heap_ok_def fits_def)

lemma heap_ok_fits_block: "heap_ok w \<Longrightarrow> blocks w a = Some cs \<Longrightarrow> fits w (length cs)"
  by (simp add: heap_ok_def)

lemma operator_delete_block:
  "blocks w a = Some cs \<Longrightarrow> operator_delete w (Ptr a 0) = Some (without_block w a)"
  by (simp add: operator_delete_def without_block_def)

lemma heap_ok_fresh: "heap_ok w \<Longrightarrow> blocks w (next_addr w) = None"
  by (auto simp: heap_ok_def)

lemma heap_ok_live: "heap_ok w \<Longrightarrow> blocks w a = Some cs \<Longrightarrow> a < next_addr w"
  by (auto simp: heap_ok_def)

lemma heap_ok_with_block:
  "heap_ok w \<Longrightarrow> a < next_addr w \<Longrightarrow> fits w (length cs) \<Longrightarrow> heap_ok (with_block w a cs)"
  by (auto simp: heap_ok_def fits_def)

lemma heap_ok_bump: "heap_ok w \<Longrightarrow> heap_ok (bump w)"
  by (auto simp: heap_ok_def fits_def less_Suc_eq)

lemma heap_ok_without_block: "heap_ok w \<Longrightarrow> heap_ok (without_block w a)"
  by (auto simp: heap_ok_def fits_def split: if_splits)

lemma construct_at_block:
  "blocks w a = Some (pre @ Raw # post) \<Longrightarrow> faults w = [] \<Longrightarrow>
   construct_at ct w (Ptr a (length pre)) x =
     Ok (Ptr a (length pre)) (with_block w a (pre @ Obj x # post))"
  by (simp add: construct_at_def cell_at_block store_block)

lemma new_T_nofault:
  "faults w = [] \<Longrightarrow> 0 < sizeof_T w \<Longrightarrow>
   new_T ct w x = Ok (Ptr (next_addr w) 0) (with_block (bump w) (next_addr w) [Obj x])"
proof -
  assume nf: "faults w = []" and pos: "0 < sizeof_T w"
  let ?w1 = "with_block (bump w) (next_addr w) (replicate 1 Raw)"
  have "blocks ?w1 (next_addr w) = Some ([] @ Raw # [])" by simp
  moreover have "faults ?w1 = []" using nf by simp
  ultimately have "construct_at ct ?w1 (Ptr (next_addr w) (length ([] :: 'a cell list))) x =
    Ok (Ptr (next_addr w) (length ([] :: 'a cell list))) (with_block ?w1 (next_addr w) ([] @ Obj x # []))"
    by (rule construct_at_block)
  then show ?thesis
    using nf pos by (simp add: new_T_def operator_new_nofault)
qed

lemma move_backward_loop_shift:
  "blocks w a = Some (pre @ map Obj ys @ Obj y # post) \<Longrightarrow> faults w = [] \<Longrightarrow>
   move_backward_loop T w (Ptr a (length pre + length ys)) (length ys)
       (Ptr a (Suc (length pre + length ys))) =
     Ok (Ptr a (Suc (length pre)))
        (with_block w a (pre @ Obj (if ys = [] then y else moved_from T (hd ys)) # map Obj ys @ post))"
proof (induction ys arbitrary: w y post rule: rev_induct)
  case Nil
  then show ?case by (simp add: with_block_same)
next
  case (snoc x ys)
  let ?w1 = "with_block w a (pre @ map Obj ys @ Obj (moved_from T x) # Obj x # post)"
  have step: "move_assign T w (Ptr a (length pre + length ys)) (Ptr a (Suc (length pre + length ys))) =
      Ok (Ptr a (Suc (length pre + length ys))) ?w1"
    using snoc.prems
    by (simp add: move_assign_def cell_at_block store_block nth_append list_update_append)
  have "move_backward_loop T ?w1 (Ptr a (length pre + length ys)) (length ys)
       (Ptr a (Suc (length pre + length ys))) =
     Ok (Ptr a (Suc (length pre)))
        (with_block ?w1 a (pre @ Obj (if ys = [] then moved_from T x else moved_from T (hd ys)) # map Obj ys @ Obj x # post))"
    using snoc.prems by (intro snoc.IH) simp_all
  with step show ?case by (cases ys) simp_all
qed


lemma CopyOrMove_one_block:
  "blocks w a = Some (pre @ Obj y # Raw # post) \<Longrightarrow> faults w = [] \<Longrightarrow>
   CopyOrMove T w (Ptr a (length pre)) (Suc 0) (Ptr a (Suc (length pre))) =
     Ok (Ptr a (Suc (Suc (length pre)))) (with_block w a (pre @ Obj (residue T y) # Obj y # post))"
  by (simp add: CopyOrMove_def uninitialized_move_n_def uninitialized_copy_n_def
      move_construct_def copy_construct_def construct_at_def cell_at_block store_block
      nth_append list_update_append residue_def)

lemma move_assign_blocks:
  "blocks w s = Some (ps @ Obj x # qs) \<Longrightarrow> blocks w d = Some (pd @ Obj y # qd) \<Longrightarrow>
   s \<noteq> d \<Longrightarrow> faults w = [] \<Longrightarrow>
   move_assign T w (Ptr s (length ps)) (Ptr d (length pd)) =
     Ok (Ptr d (length pd))
        (with_block (with_block w s (ps @ Obj (moved_from T x) # qs)) d (pd @ Obj x # qd))"
  by (simp add: move_assign_def cell_at_block store_block)

lemma drop_butlast_last:
  assumes "p < length xs"
  shows "drop p xs = drop p (butlast xs) @ [last xs]"
proof -
  from assms have ne: "xs \<noteq> []" by auto
  have "drop p (butlast xs @ [last xs]) = drop p (butlast xs) @ [last xs]"
    using assms by simp
  with ne show ?thesis by simp
qed

lemma butlast_split:
  "p < length xs \<Longrightarrow> xs = take p xs @ drop p (butlast xs) @ [last xs]"
  using drop_butlast_last[of p xs] append_take_drop_id[of p xs] by simp

lemma Emplace_inplace_result:
  assumes h: "holds w v xs" and nf: "faults w = []" and ok: "heap_ok w"
    and p: "p < length xs" and spare: "length xs < capacity_m (data_m v)"
    and buf: "buffer_m (data_m v) = Ptr a 0"
  shows "Emplace T ct v w (Ptr a p) x =
     Ok (Ptr a p) (v\<lparr>size_m := Suc (length xs)\<rparr>,
        with_block (with_block (bump w) (next_addr w) [Raw]) a
          (layout (take p xs @ x # drop p xs) (capacity_m (data_m v))))"
proof -
  let ?cap = "capacity_m (data_m v)"
  define n where "n = length xs"
  define t where "t = next_addr w"
  define pre where "pre = map Obj (take p xs)"
  define ys where "ys = drop p (butlast xs)"
  define post where "post = replicate (?cap - Suc n) (Raw :: 'a cell)"
  define r where "r = residue T (last xs)"
  define z where "z = (if ys = [] then r else moved_from T (hd ys))"
  define w1 where "w1 = with_block (bump w) t [Obj x]"
  define w2 where "w2 = with_block w1 a (pre @ map Obj ys @ Obj r # Obj (last xs) # post)"
  define w3 where "w3 = with_block w2 a (pre @ Obj z # map Obj ys @ Obj (last xs) # post)"
  define w4 where "w4 = with_block (with_block w3 t [Obj (moved_from T x)]) a
                          (pre @ Obj x # map Obj ys @ Obj (last xs) # post)"
  define w5 where "w5 = with_block w4 t [Raw]"
  from h buf have sz: "size_m v = n" and blk: "blocks w a = Some (layout xs ?cap)"
    by (auto simp: holds_def n_def)
  have n: "p < n" "n < ?cap" using p spare by (simp_all add: n_def)
  have at: "a \<noteq> t" using heap_ok_live[OF ok blk] by (simp add: t_def)
  have lp: "length pre = p" using p by (simp add: pre_def)
  have ly: "length ys = n - Suc p" by (simp add: ys_def n_def)
  have xs_split: "xs = take p xs @ ys @ [last xs]"
    unfolding ys_def using p by (rule butlast_split)
  have "replicate (?cap - n) (Raw :: 'a cell) = Raw # post"
    using n by (cases "?cap - n") (auto simp: post_def)
  then have "layout xs ?cap = map Obj (take p xs @ ys @ [last xs]) @ Raw # post"
    unfolding layout_def n_def[symmetric] using xs_split by simp
  then have lay: "layout xs ?cap = (pre @ map Obj ys) @ Obj (last xs) # Raw # post"
    by (simp add: pre_def)
  have nt: "new_T ct w x = Ok (Ptr t 0) w1"
    unfolding w1_def t_def using nf heap_ok_sizeof[OF ok] by (rule new_T_nofault)
  have nf1: "faults w1 = []" using nf by (simp add: w1_def)
  have blk1: "blocks w1 a = Some ((pre @ map Obj ys) @ Obj (last xs) # Raw # post)"
    using blk lay at by (simp add: w1_def)
  have "CopyOrMove T w1 (Ptr a (length (pre @ map Obj ys))) (Suc 0)
          (Ptr a (Suc (length (pre @ map Obj ys)))) =
        Ok (Ptr a (Suc (Suc (length (pre @ map Obj ys)))))
           (with_block w1 a ((pre @ map Obj ys) @ Obj (residue T (last xs)) # Obj (last xs) # post))"
    using blk1 nf1 by (rule CopyOrMove_one_block)
  moreover have "length (pre @ map Obj ys) = n - Suc 0" "Suc (n - Suc 0) = n"
    using n by (simp_all add: lp ly)
  ultimately have cm: "CopyOrMove T w1 (Ptr a (n - Suc 0)) (Suc 0) (Ptr a n) = Ok (Ptr a (Suc n)) w2"
    by (simp add: w2_def r_def)
  have nf2: "faults w2 = []" using nf1 by (simp add: w2_def)
  have blk2: "blocks w2 a = Some (pre @ map Obj ys @ Obj r # Obj (last xs) # post)"
    by (simp add: w2_def)
  have "move_backward_loop T w2 (Ptr a (length pre + length ys)) (length ys)
       (Ptr a (Suc (length pre + length ys))) =
     Ok (Ptr a (Suc (length pre)))
        (with_block w2 a (pre @ Obj (if ys = [] then r else moved_from T (hd ys)) # map Obj ys @
           Obj (last xs) # post))"
    using blk2 nf2 by (rule move_backward_loop_shift)
  moreover have "length pre + length ys = n - Suc 0" using n by (simp add: lp ly)
  ultimately have "move_backward_loop T w2 (Ptr a (n - Suc 0)) (n - Suc p) (Ptr a n) =
      Ok (Ptr a (Suc p)) w3"
    using n by (simp add: w3_def z_def lp ly)
  then have mb: "std_move_backward T w2 (Ptr a p) (Ptr a (n - Suc 0)) (Ptr a n) = Ok (Ptr a (Suc p)) w3"
    using n by (simp add: std_move_backward_def)
  have nf3: "faults w3 = []" using nf2 by (simp add: w3_def)
  have blk3t: "blocks w3 t = Some ([] @ Obj x # [])"
    using at by (simp add: w3_def w2_def w1_def)
  have blk3a: "blocks w3 a = Some (pre @ Obj z # map Obj ys @ Obj (last xs) # post)"
    by (simp add: w3_def)
  have "move_assign T w3 (Ptr t (length ([] :: 'a cell list))) (Ptr a (length pre)) =
     Ok (Ptr a (length pre))
        (with_block (with_block w3 t ([] @ Obj (moved_from T x) # [])) a
           (pre @ Obj x # map Obj ys @ Obj (last xs) # post))"
    using blk3t blk3a at[symmetric] nf3 by (rule move_assign_blocks)
  then have ma: "move_assign T w3 (Ptr t 0) (Ptr a p) = Ok (Ptr a p) w4"
    by (simp add: lp w4_def)
  have "blocks w4 t = Some ([] @ Obj (moved_from T x) # [])"
    using at by (simp add: w4_def)
  then have "destroy_at w4 (Ptr t (length ([] :: 'a cell list))) = Some (with_block w4 t ([] @ Raw # []))"
    by (rule destroy_at_block)
  then have ds: "destroy_at w4 (Ptr t 0) = Some w5"
    by (simp add: w5_def)
  have "take p xs @ x # drop p xs = take p xs @ x # ys @ [last xs]"
    using drop_butlast_last[OF p] by (simp add: ys_def)
  then have "layout (take p xs @ x # drop p xs) ?cap = pre @ Obj x # map Obj ys @ Obj (last xs) # post"
    using n p by (simp add: layout_def pre_def post_def ly min_def n_def)
  then have fin: "w5 = with_block (with_block (bump w) t [Raw]) a
      (layout (take p xs @ x # drop p xs) ?cap)"
    using at
    by (simp add: w5_def w4_def w3_def w2_def w1_def with_block_commute[of a t])
  have pr: "ptr_pred (Ptr a n) = Some (Ptr a (n - Suc 0))"
    using n by (cases n) simp_all
  show ?thesis
    using n
    by (simp add: Emplace_def Vector_end_def Vector_begin_def RawMemory_plus_def GetAddress_def
        Capacity_def RawMemory_Capacity_def
        sz buf nt pr cm mb ma ds destroy_n_Suc0 fin[symmetric] t_def[symmetric] n_def[symmetric]
        del: destroy_n.simps)
qed

lemma with_block_absorb:
  "a \<noteq> b \<Longrightarrow>
   with_block (with_block (with_block w a cs) b ds) a cs' = with_block (with_block w a cs') b ds"
  by (simp add: with_block_commute[of b a])

lemma blocks_other [simp]: "a \<noteq> b \<Longrightarrow> blocks (with_block w b ds) a = blocks w a"
  by simp

lemma destroy_n_block:
  "blocks w a = Some (pre @ map Obj zs @ post) \<Longrightarrow>
   destroy_n w (Ptr a (length pre)) (length zs) =
     Some (with_block w a (pre @ replicate (length zs) Raw @ post))"
proof (induction zs arbitrary: w pre)
  case Nil
  then show ?case by (simp add: with_block_same)
next
  case (Cons z zs)
  let ?w1 = "with_block w a ((pre @ [Raw]) @ map Obj zs @ post)"
  have step: "destroy_at w (Ptr a (length pre)) = Some ?w1"
    using Cons.prems destroy_at_block[of w a pre z "map Obj zs @ post"] by simp
  have "destroy_n ?w1 (Ptr a (length (pre @ [Raw]))) (length zs) =
     Some (with_block ?w1 a ((pre @ [Raw]) @ replicate (length zs) Raw @ post))"
    by (intro Cons.IH) simp
  with step show ?case by (simp add: replicate_app_Cons_same)
qed

lemma move_construct_loop_blocks:
  "blocks w a = Some (pa @ map Obj xs @ qa) \<Longrightarrow>
   blocks w b = Some (pb @ replicate (length xs) Raw @ qb) \<Longrightarrow> a \<noteq> b \<Longrightarrow> faults w = [] \<Longrightarrow>
   move_construct_loop T w (Ptr a (length pa)) (length xs) d0 (Ptr b (length pb)) =
     Ok (Ptr b (length pb + length xs))
        (with_block (with_block w a (pa @ map Obj (map (moved_from T) xs) @ qa)) b
           (pb @ map Obj xs @ qb))"
proof (induction xs arbitrary: w pa pb)
  case Nil
  then show ?case by (simp add: with_block_same)
next
  case (Cons x xs)
  let ?A1 = "(pa @ [Obj (moved_from T x)]) @ map Obj xs @ qa"
  let ?B1 = "(pb @ [Obj x]) @ replicate (length xs) Raw @ qb"
  let ?w1 = "with_block (with_block w a ?A1) b ?B1"
  have step: "move_construct T w (Ptr a (length pa)) (Ptr b (length pb)) = Ok (Ptr b (length pb)) ?w1"
    using Cons.prems
    by (simp add: move_construct_def cell_at_block store_block nth_append list_update_append)
  have "move_construct_loop T ?w1 (Ptr a (length (pa @ [Obj (moved_from T x)]))) (length xs) d0
          (Ptr b (length (pb @ [Obj x]))) =
     Ok (Ptr b (length (pb @ [Obj x]) + length xs))
        (with_block (with_block ?w1 a ((pa @ [Obj (moved_from T x)]) @ map Obj (map (moved_from T) xs) @ qa)) b
           ((pb @ [Obj x]) @ map Obj xs @ qb))"
    using Cons.prems by (intro Cons.IH) simp_all
  with step Cons.prems(3) show ?case by (simp add: with_block_absorb)
qed

lemma copy_construct_loop_blocks:
  "blocks w a = Some (pa @ map Obj xs @ qa) \<Longrightarrow>
   blocks w b = Some (pb @ replicate (length xs) Raw @ qb) \<Longrightarrow> a \<noteq> b \<Longrightarrow> faults w = [] \<Longrightarrow>
   copy_construct_loop w (Ptr a (length pa)) (length xs) d0 (Ptr b (length pb)) =
     Ok (Ptr b (length pb + length xs)) (with_block w b (pb @ map Obj xs @ qb))"
proof (induction xs arbitrary: w pa pb)
  case Nil
  then show ?case by (simp add: with_block_same)
next
  case (Cons x xs)
  let ?B1 = "(pb @ [Obj x]) @ replicate (length xs) Raw @ qb"
  let ?w1 = "with_block w b ?B1"
  have step: "copy_construct w (Ptr a (length pa)) (Ptr b (length pb)) = Ok (Ptr b (length pb)) ?w1"
    using Cons.prems
    by (simp add: copy_construct_def construct_at_def cell_at_block store_block nth_append
        list_update_append)
  have "copy_construct_loop ?w1 (Ptr a (length (pa @ [Obj x]))) (length xs) d0
          (Ptr b (length (pb @ [Obj x]))) =
     Ok (Ptr b (length (pb @ [Obj x]) + length xs))
        (with_block ?w1 b ((pb @ [Obj x]) @ map Obj xs @ qb))"
    using Cons.prems by (intro Cons.IH) simp_all
  with step show ?case by simp
qed

lemma CopyOrMove_blocks:
  assumes "blocks w a = Some (pa @ map Obj xs @ qa)"
    and "blocks w b = Some (pb @ replicate (length xs) Raw @ qb)" and "a \<noteq> b" and "faults w = []"
  shows "CopyOrMove T w (Ptr a (length pa)) (length xs) (Ptr b (length pb)) =
     Ok (Ptr b (length pb + length xs))
        (with_block (with_block w a (pa @ map Obj (map (residue T) xs) @ qa)) b
           (pb @ map Obj xs @ qb))"
proof (cases "nothrow_move_constructible T \<or> \<not> copy_constructible T")
  case True
  then have "residue T = moved_from T" by (auto simp: residue_def)
  with True show ?thesis
    using move_construct_loop_blocks[OF assms, of T]
    by (simp add: CopyOrMove_def uninitialized_move_n_def)
next
  case False
  then have "map (residue T) xs = xs" by (induction xs) (simp_all add: residue_def)
  with False show ?thesis
    using copy_construct_loop_blocks[OF assms] with_block_same[OF assms(1)]
    by (simp add: CopyOrMove_def uninitialized_copy_n_def)
qed

lemma faults_freed [simp]: "faults (freed w p) = faults w"
  by (simp add: freed_def split: ptr.splits)

lemma sizeof_T_freed [simp]: "sizeof_T (freed w p) = sizeof_T w"
  by (simp add: freed_def split: ptr.splits)

lemma next_addr_freed [simp]: "next_addr (freed w p) = next_addr w"
  by (simp add: freed_def split: ptr.splits)

lemma heap_ok_freed: "heap_ok w \<Longrightarrow> heap_ok (freed w p)"
  by (simp add: freed_def heap_ok_without_block split: ptr.splits)

lemma RawMemory_ctor_nofault:
  "faults w = [] \<Longrightarrow> n \<noteq> 0 \<Longrightarrow> fits w n \<Longrightarrow>
   RawMemory_ctor w n = Ok \<lparr>buffer_m = Ptr (next_addr w) 0, capacity_m = n\<rparr>
      (with_block (bump w) (next_addr w) (replicate n Raw))"
  by (simp add: RawMemory_ctor_def Allocate_def operator_new_nofault fits_slots)

lemma holds_cases:
  assumes "holds w v xs"
  obtains (null) "buffer_m (data_m v) = Null" "xs = []" "capacity_m (data_m v) = 0" "size_m v = 0"
  | (block) a where "buffer_m (data_m v) = Ptr a 0" "0 < capacity_m (data_m v)"
      "blocks w a = Some (layout xs (capacity_m (data_m v)))" "size_m v = length xs"
      "length xs \<le> capacity_m (data_m v)"
  using assms by (auto simp: holds_def split: ptr.splits)

text \<open>The state \<^verbatim>\<open>CopySwap\<close> leaves: the elements now live in the new block.\<close>

lemma CopySwap_result:
  assumes h: "holds w v xs" and nf: "faults w = []"
    and nb: "blocks w b = Some (replicate (length xs) Raw @ qb)"
    and fresh: "\<forall>a. buffer_m (data_m v) = Ptr a 0 \<longrightarrow> a \<noteq> b"
  shows "\<exists>w'. CopySwap T v w \<lparr>buffer_m = Ptr b 0, capacity_m = c\<rparr> =
           Ok () (v\<lparr>data_m := \<lparr>buffer_m = Ptr b 0, capacity_m = c\<rparr>\<rparr>, data_m v, w') \<and>
         faults w' = [] \<and> next_addr w' = next_addr w \<and>
         freed w' (buffer_m (data_m v)) = freed (with_block w b (map Obj xs @ qb)) (buffer_m (data_m v)) \<and>
         (\<forall>a. buffer_m (data_m v) = Ptr a 0 \<longrightarrow> blocks w' a \<noteq> None)"
  using h
proof (cases rule: holds_cases)
  case null
  then show ?thesis
    using nb nf
    by (simp add: CopySwap_def CopyOrMove_def uninitialized_move_n_def uninitialized_copy_n_def
        GetAddress_def RawMemory_Swap_def with_block_same)
next
  case (block a)
  let ?cap = "capacity_m (data_m v)"
  let ?raws = "replicate (?cap - length xs) (Raw :: 'a cell)"
  define w1 where "w1 = with_block (with_block w a ([] @ map Obj (map (residue T) xs) @ ?raws)) b
           ([] @ map Obj xs @ qb)"
  define w2 where "w2 = with_block w1 a ([] @ replicate (length (map (residue T) xs)) Raw @ ?raws)"
  from fresh block have ab: "a \<noteq> b" by simp
  have "blocks w a = Some ([] @ map Obj xs @ ?raws)"
    using block by (simp add: layout_def)
  moreover have "blocks w b = Some ([] @ replicate (length xs) Raw @ qb)"
    using nb by simp
  ultimately have "CopyOrMove T w (Ptr a (length ([] :: 'a cell list))) (length xs)
      (Ptr b (length ([] :: 'a cell list))) = Ok (Ptr b (length ([] :: 'a cell list) + length xs)) w1"
    unfolding w1_def using ab nf by (rule CopyOrMove_blocks)
  then have cm: "CopyOrMove T w (Ptr a 0) (length xs) (Ptr b 0) = Ok (Ptr b (length xs)) w1"
    by simp
  have "blocks w1 a = Some ([] @ map Obj (map (residue T) xs) @ ?raws)"
    using ab by (simp add: w1_def)
  then have "destroy_n w1 (Ptr a (length ([] :: 'a cell list))) (length (map (residue T) xs)) = Some w2"
    unfolding w2_def by (rule destroy_n_block)
  then have ds: "destroy_n w1 (Ptr a 0) (length xs) = Some w2"
    by simp
  have run: "CopySwap T v w \<lparr>buffer_m = Ptr b 0, capacity_m = c\<rparr> =
           Ok () (v\<lparr>data_m := \<lparr>buffer_m = Ptr b 0, capacity_m = c\<rparr>\<rparr>, data_m v, w2)"
    using block by (simp add: CopySwap_def GetAddress_def cm ds RawMemory_Swap_def)
  have "without_block w2 a = without_block (with_block w b (map Obj xs @ qb)) a"
    using ab by (simp add: w2_def w1_def with_block_commute[of a b])
  then have fr: "freed w2 (buffer_m (data_m v)) =
      freed (with_block w b (map Obj xs @ qb)) (buffer_m (data_m v))"
    using block by (simp add: freed_def)
  have "faults w2 = []" "next_addr w2 = next_addr w" "blocks w2 a \<noteq> None"
    using nf by (simp_all add: w2_def w1_def)
  with run fr block show ?thesis by auto
qed

lemma RawMemory_dtor_after:
  assumes "holds w v xs" and "\<forall>a. buffer_m (data_m v) = Ptr a 0 \<longrightarrow> blocks w' a \<noteq> None"
  shows "RawMemory_dtor w' (data_m v) = Some (freed w' (buffer_m (data_m v)))"
  using assms(1)
proof (cases rule: holds_cases)
  case null
  then show ?thesis
    by (simp add: RawMemory_dtor_def Deallocate_def operator_delete_def freed_def)
next
  case (block a)
  with assms(2) show ?thesis
    by (auto simp: RawMemory_dtor_def Deallocate_def operator_delete_def freed_def without_block_def)
qed

lemma holds_transfer:
  assumes "holds w v xs" and "\<forall>a. buffer_m (data_m v) = Ptr a 0 \<longrightarrow> blocks w' a = blocks w a"
  shows "holds w' v xs"
  using assms by (auto simp: holds_def split: ptr.splits)

lemma holds_fresh:
  assumes "holds w v xs" and "heap_ok w"
  shows "\<forall>a. buffer_m (data_m v) = Ptr a 0 \<longrightarrow> a \<noteq> next_addr w"
  using assms by (auto simp: holds_def heap_ok_def split: ptr.splits)

lemma blocks_freed_other:
  "(\<forall>a i. p = Ptr a i \<longrightarrow> a \<noteq> b) \<Longrightarrow> blocks (freed w p) b = blocks w b"
  by (cases p) (auto simp: freed_def)

lemma layout_snoc_full:
  "length xs < c \<Longrightarrow> layout (xs @ [x]) c = map Obj xs @ Obj x # replicate (c - Suc (length xs)) Raw"
  by (simp add: layout_def)

lemma raw_split:
  "n < c \<Longrightarrow> replicate c (Raw :: 'a cell) = replicate n Raw @ Raw # replicate (c - Suc n) Raw"
proof -
  assume "n < c"
  then have "c = n + Suc (c - Suc n)" by simp
  then have "replicate c (Raw :: 'a cell) = replicate (n + Suc (c - Suc n)) Raw" by simp
  then show ?thesis by (simp only: replicate_add replicate.simps)
qed

lemma PushBackU_realloc:
  assumes "size_m v = Capacity v"
    and "RawMemory_ctor w (if size_m v = 0 then 1 else size_m v * 2) = Ok nd w1"
    and "copy_move w1 (GetAddress nd) = Ok res w2"
    and "CopySwap T v w2 nd = Ok () (v1, nd1, w3)"
    and "RawMemory_dtor w3 nd1 = Some w4"
  shows "PushBackU T v w copy_move = Ok res (v1\<lparr>size_m := size_m v1 + 1\<rparr>, w4)"
  using assms by (simp add: PushBackU_def)

lemma EmplaceBack_result:
  assumes h: "holds w v xs" and nf: "faults w = []" and ok: "heap_ok w"
    and room: "fits w (if length xs \<noteq> Capacity v then Capacity v
                       else if xs = [] then 1 else 2 * length xs)"
  shows "\<exists>res v' w'. EmplaceBack T ct v w x = Ok res (v', w') \<and>
           holds w' v' (xs @ [x]) \<and> heap_ok w' \<and> faults w' = [] \<and>
           sizeof_T w' = sizeof_T w \<and>
           Capacity v' = (if length xs \<noteq> Capacity v then Capacity v
                          else if xs = [] then 1 else 2 * length xs) \<and>
           Vector_index v' (length xs) = Some res"
proof (cases "length xs \<noteq> Capacity v")
  case True
  from h have "length xs \<le> capacity_m (data_m v)" by (simp add: holds_def)
  with True have lt: "length xs < capacity_m (data_m v)"
    by (simp add: Capacity_def RawMemory_Capacity_def)
  from h lt obtain a where buf: "buffer_m (data_m v) = Ptr a 0"
    and blk: "blocks w a = Some (layout xs (capacity_m (data_m v)))"
    and sz: "size_m v = length xs"
    by (cases rule: holds_cases) auto
  let ?cap = "capacity_m (data_m v)"
  let ?w' = "with_block w a (map Obj xs @ Obj x # replicate (?cap - Suc (length xs)) Raw)"
  have "blocks w a = Some (map Obj xs @ Raw # replicate (?cap - Suc (length xs)) Raw)"
    using blk lt raw_split[of 0 "?cap - length xs"] by (simp add: layout_def Suc_diff_Suc)
  then have "construct_at ct w (Ptr a (length (map Obj xs))) x = Ok (Ptr a (length (map Obj xs))) ?w'"
    using nf by (rule construct_at_block)
  then have ca: "construct_at ct w (Ptr a (length xs)) x = Ok (Ptr a (length xs)) ?w'"
    by simp
  have run: "EmplaceBack T ct v w x = Ok (Ptr a (length xs)) (v\<lparr>size_m := Suc (length xs)\<rparr>, ?w')"
    using True by (simp add: EmplaceBack_def PushBackU_def sz GetAddress_def buf ca)
  have "holds ?w' (v\<lparr>size_m := Suc (length xs)\<rparr>) (xs @ [x])"
    using lt buf by (simp add: holds_def layout_snoc_full)
  moreover have "heap_ok ?w'"
  proof (rule heap_ok_with_block[OF ok heap_ok_live[OF ok blk]])
    have "length (map Obj xs @ Obj x # replicate (?cap - Suc (length xs)) Raw) =
        length (layout xs ?cap)"
      using lt by (simp add: layout_def)
    with heap_ok_fits_block[OF ok blk]
    show "fits w (length (map Obj xs @ Obj x # replicate (?cap - Suc (length xs)) Raw))"
      by (simp only:)
  qed
  moreover have "Vector_index (v\<lparr>size_m := Suc (length xs)\<rparr>) (length xs) = Some (Ptr a (length xs))"
    using lt buf by (simp add: Vector_index_def RawMemory_index_def)
  ultimately show ?thesis
    using run nf True by (simp add: Capacity_def)
next
  case False
  then have full: "length xs = capacity_m (data_m v)"
    by (simp add: Capacity_def RawMemory_Capacity_def)
  from h have sz: "size_m v = length xs" by (simp add: holds_def)
  define c where "c = (if length xs = 0 then 1 else length xs * 2)"
  define b where "b = next_addr w"
  define qb where "qb = Obj x # replicate (c - Suc (length xs)) Raw"
  define w1 where "w1 = with_block (bump w) b (replicate c Raw)"
  define w2 where "w2 = with_block w1 b (replicate (length xs) Raw @ qb)"
  have c: "length xs < c" "c \<noteq> 0" by (simp_all add: c_def)
  from False have eq: "length xs = Capacity v" by simp
  from room have "fits w (if xs = [] then 1 else 2 * length xs)"
    by (simp add: eq[symmetric])
  then have fc: "fits w c" by (cases "xs = []") (simp_all add: c_def mult.commute)
  have rc: "RawMemory_ctor w c = Ok \<lparr>buffer_m = Ptr b 0, capacity_m = c\<rparr> w1"
    unfolding w1_def b_def using nf c(2) fc by (rule RawMemory_ctor_nofault)
  have nf1: "faults w1 = []" using nf by (simp add: w1_def)
  have "blocks w1 b = Some (replicate (length xs) Raw @ Raw # replicate (c - Suc (length xs)) Raw)"
    using raw_split[OF c(1)] by (simp add: w1_def)
  then have "construct_at ct w1 (Ptr b (length (replicate (length xs) (Raw :: 'a cell)))) x =
      Ok (Ptr b (length (replicate (length xs) (Raw :: 'a cell))))
         (with_block w1 b (replicate (length xs) Raw @ Obj x # replicate (c - Suc (length xs)) Raw))"
    using nf1 by (rule construct_at_block)
  then have ca: "construct_at ct w1 (Ptr b (length xs)) x = Ok (Ptr b (length xs)) w2"
    by (simp add: w2_def qb_def)
  have fresh: "\<forall>a. buffer_m (data_m v) = Ptr a 0 \<longrightarrow> a \<noteq> b"
    unfolding b_def using h ok by (rule holds_fresh)
  then have "\<forall>a. buffer_m (data_m v) = Ptr a 0 \<longrightarrow> blocks w2 a = blocks w a"
    by (simp add: w2_def w1_def)
  with h have h2: "holds w2 v xs" by (rule holds_transfer)
  have nf2: "faults w2 = []" using nf1 by (simp add: w2_def)
  have nb: "blocks w2 b = Some (replicate (length xs) Raw @ qb)" by (simp add: w2_def)
  from CopySwap_result[OF h2 nf2 nb fresh, of T c]
  obtain w3 where cs: "CopySwap T v w2 \<lparr>buffer_m = Ptr b 0, capacity_m = c\<rparr> =
           Ok () (v\<lparr>data_m := \<lparr>buffer_m = Ptr b 0, capacity_m = c\<rparr>\<rparr>, data_m v, w3)"
    and nf3: "faults w3 = []" and na3: "next_addr w3 = next_addr w2"
    and fr: "freed w3 (buffer_m (data_m v)) =
        freed (with_block w2 b (map Obj xs @ qb)) (buffer_m (data_m v))"
    and live: "\<forall>a. buffer_m (data_m v) = Ptr a 0 \<longrightarrow> blocks w3 a \<noteq> None"
    by blast
  have dt: "RawMemory_dtor w3 (data_m v) = Some (freed w3 (buffer_m (data_m v)))"
    using h live by (rule RawMemory_dtor_after)
  let ?v' = "\<lparr>data_m = \<lparr>buffer_m = Ptr b 0, capacity_m = c\<rparr>, size_m = Suc (length xs)\<rparr>"
  let ?w' = "freed (with_block (bump w) b (layout (xs @ [x]) c)) (buffer_m (data_m v))"
  have w': "freed w3 (buffer_m (data_m v)) = ?w'"
    using fr c by (simp add: w2_def w1_def qb_def layout_snoc_full)
  have "PushBackU T v w (\<lambda>w' dest. construct_at ct w' (ptr_add dest (size_m v)) x) =
      Ok (Ptr b (length xs))
        ((v\<lparr>data_m := \<lparr>buffer_m = Ptr b 0, capacity_m = c\<rparr>\<rparr>)
           \<lparr>size_m := size_m (v\<lparr>data_m := \<lparr>buffer_m = Ptr b 0, capacity_m = c\<rparr>\<rparr>) + 1\<rparr>,
         freed w3 (buffer_m (data_m v)))"
  proof (rule PushBackU_realloc)
    show "size_m v = Capacity v"
      using full sz by (simp add: Capacity_def RawMemory_Capacity_def)
    show "RawMemory_ctor w (if size_m v = 0 then 1 else size_m v * 2) =
        Ok \<lparr>buffer_m = Ptr b 0, capacity_m = c\<rparr> w1"
      unfolding sz c_def[symmetric] by (rule rc)
    show "construct_at ct w1
        (ptr_add (GetAddress \<lparr>buffer_m = Ptr b 0, capacity_m = c\<rparr>) (size_m v)) x =
        Ok (Ptr b (length xs)) w2"
      using ca by (simp add: GetAddress_def sz)
    show "CopySwap T v w2 \<lparr>buffer_m = Ptr b 0, capacity_m = c\<rparr> =
        Ok () (v\<lparr>data_m := \<lparr>buffer_m = Ptr b 0, capacity_m = c\<rparr>\<rparr>, data_m v, w3)"
      by (rule cs)
    show "RawMemory_dtor w3 (data_m v) = Some (freed w3 (buffer_m (data_m v)))"
      by (rule dt)
  qed
  then have run: "EmplaceBack T ct v w x = Ok (Ptr b (length xs)) (?v', ?w')"
    by (simp add: EmplaceBack_def w' sz)
  have "\<forall>a i. buffer_m (data_m v) = Ptr a i \<longrightarrow> a \<noteq> b"
    using h fresh by (cases rule: holds_cases) auto
  then have "blocks ?w' b = Some (layout (xs @ [x]) c)"
    by (simp add: blocks_freed_other)
  then have "holds ?w' ?v' (xs @ [x])"
    using c by (simp add: holds_def)
  moreover have "heap_ok ?w'"
    using ok fc c
    by (intro heap_ok_freed heap_ok_with_block heap_ok_bump)
       (simp_all add: b_def layout_def fits_same[of "bump w" w])
  moreover have "Vector_index ?v' (length xs) = Some (Ptr b (length xs))"
    using c by (simp add: Vector_index_def RawMemory_index_def)
  ultimately show ?thesis
    using run nf False by (auto simp: Capacity_def RawMemory_Capacity_def c_def)
qed

lemma append_one_result:
  assumes h: "holds w v xs" and nf: "faults w = []" and ok: "heap_ok w"
    and room: "fits w (if length xs \<noteq> Capacity v then Capacity v
                       else if xs = [] then 1 else 2 * length xs)"
  shows "\<exists>res v' w'. append_one T v w a = Ok res (v', w') \<and>
           holds w' v' (xs @ [appended a]) \<and> heap_ok w' \<and> faults w' = [] \<and>
           sizeof_T w' = sizeof_T w \<and>
           Capacity v' = (if length xs \<noteq> Capacity v then Capacity v
                          else if xs = [] then 1 else 2 * length xs)"
proof (cases a)
  case (PushCopy x)
  from EmplaceBack_result[OF h nf ok room, of T True x] show ?thesis
    unfolding PushCopy by (auto simp: PushBack_def EmplaceBack_def)
next
  case (PushMove x)
  from EmplaceBack_result[OF h nf ok room, of T "\<not> nothrow_move_constructible T" x]
  show ?thesis
    unfolding PushMove by (auto simp: PushBack_rvalue_def EmplaceBack_def)
next
  case (EmplaceArgs ct x)
  from EmplaceBack_result[OF h nf ok room, of T ct x] show ?thesis
    unfolding EmplaceArgs by auto
qed

lemma tight_step:
  assumes "tight n c"
  shows "tight (Suc n) (if n \<noteq> c then c else if n = 0 then 1 else 2 * n)"
proof (cases "n = 0")
  case True
  with assms have "c = 0" by (auto simp: tight_def)
  have "tight (Suc 0) 1" by (simp add: tight_def exI[of _ 0])
  with True \<open>c = 0\<close> show ?thesis by simp
next
  case False
  with assms obtain m where m: "c = 2 ^ m" "n \<le> c" "c < 2 * n"
    by (auto simp: tight_def)
  show ?thesis
  proof (cases "n = c")
    case True
    with m False have "2 * n = 2 ^ Suc m \<and> Suc n \<le> 2 * n \<and> 2 * n < 2 * Suc n" by auto
    then have "\<exists>k. 2 * n = 2 ^ k \<and> Suc n \<le> 2 * n \<and> 2 * n < 2 * Suc n" by (rule exI)
    then have "tight (Suc n) (2 * n)" by (simp add: tight_def)
    with True False show ?thesis by simp
  next
    case ne: False
    with m have "c = 2 ^ m \<and> Suc n \<le> c \<and> c < 2 * Suc n" by auto
    then have "\<exists>k. c = 2 ^ k \<and> Suc n \<le> c \<and> c < 2 * Suc n" by (rule exI)
    then have "tight (Suc n) c" by (simp add: tight_def)
    with ne show ?thesis by simp
  qed
qed

lemma tight_least:
  assumes "tight n c" and "0 < n"
  shows "\<exists>m. c = 2 ^ m \<and> n \<le> 2 ^ m \<and> (\<forall>j. n \<le> 2 ^ j \<longrightarrow> (2::nat) ^ m \<le> 2 ^ j)"
proof -
  from assms obtain m where m: "c = 2 ^ m" "n \<le> c" "c < 2 * n"
    by (auto simp: tight_def)
  have "(2::nat) ^ m \<le> 2 ^ j" if "n \<le> 2 ^ j" for j
  proof (rule ccontr)
    assume "\<not> (2::nat) ^ m \<le> 2 ^ j"
    then have "j < m" by (simp add: not_le)
    then have "Suc j \<le> m" by simp
    then have "(2::nat) ^ Suc j \<le> 2 ^ m" by (rule power_increasing) simp
    with m that show False by simp
  qed
  with m show ?thesis by auto
qed

lemma tight_bound:
  assumes "tight n c" and "n \<le> 2 ^ M"
  shows "c \<le> 2 ^ M"
proof (cases "n = 0")
  case True
  with assms(1) show ?thesis by (simp add: tight_def)
next
  case False
  then have "0 < n" by simp
  from tight_least[OF assms(1) this] assms(2) show ?thesis by auto
qed

lemma appends_result:
  assumes "holds w v xs" and "faults w = []" and "heap_ok w"
    and "tight (length xs) (Capacity v)"
    and "length xs + length as \<le> 2 ^ M" and "fits w (2 ^ M)"
  shows "\<exists>v' w'. appends T v w as = Ok () (v', w') \<and>
           holds w' v' (xs @ map appended as) \<and> heap_ok w' \<and> faults w' = [] \<and>
           sizeof_T w' = sizeof_T w \<and> Capacity v \<le> Capacity v' \<and>
           tight (length xs + length as) (Capacity v')"
  using assms
proof (induction as arbitrary: v w xs)
  case Nil
  then show ?case by simp
next
  case (Cons a as)
  let ?c = "if length xs \<noteq> Capacity v then Capacity v else if xs = [] then 1 else 2 * length xs"
  have "?c = (if length xs \<noteq> Capacity v then Capacity v
        else if length xs = 0 then 1 else 2 * length xs)"
    by simp
  with tight_step[OF Cons.prems(4)] have t1: "tight (Suc (length xs)) ?c"
    by (simp only:)
  from Cons.prems(5) have "Suc (length xs) \<le> 2 ^ M" by simp
  with t1 have "?c \<le> 2 ^ M" by (rule tight_bound)
  with Cons.prems(6) have room: "fits w ?c" by (rule fits_mono)
  from append_one_result[OF Cons.prems(1-3) room, of T a]
  obtain res v1 w1 where one: "append_one T v w a = Ok res (v1, w1)"
    and h1: "holds w1 v1 (xs @ [appended a])" and ok1: "heap_ok w1" and nf1: "faults w1 = []"
    and s1: "sizeof_T w1 = sizeof_T w" and c1: "Capacity v1 = ?c"
    by blast
  from t1 c1 have t1': "tight (length (xs @ [appended a])) (Capacity v1)" by simp
  from Cons.prems(5) have b1: "length (xs @ [appended a]) + length as \<le> 2 ^ M" by simp
  from Cons.prems(6) have f1: "fits w1 (2 ^ M)" by (simp add: fits_same[OF s1])
  from Cons.IH[OF h1 nf1 ok1 t1' b1 f1]
  obtain v' w' where rest: "appends T v1 w1 as = Ok () (v', w')"
    and h': "holds w' v' ((xs @ [appended a]) @ map appended as)"
    and ok': "heap_ok w'" and nf': "faults w' = []" and s': "sizeof_T w' = sizeof_T w1"
    and mono: "Capacity v1 \<le> Capacity v'"
    and t': "tight (length (xs @ [appended a]) + length as) (Capacity v')"
    by blast
  from Cons.prems(1) have "length xs \<le> Capacity v"
    by (simp add: holds_def Capacity_def RawMemory_Capacity_def)
  then have "Capacity v \<le> Capacity v1" using c1 by auto
  with mono have m: "Capacity v \<le> Capacity v'" by simp
  from t' have "tight (length xs + length (a # as)) (Capacity v')" by simp
  with one rest h' ok' nf' m s' s1 show ?case by simp
qed

lemma appends_append:
  "appends T v w (as @ bs) =
     (case appends T v w as of
        Ok u (v1, w1) \<Rightarrow> appends T v1 w1 bs
      | Throw e s \<Rightarrow> Throw e s
      | Undefined \<Rightarrow> Undefined)"
  by (induction as arbitrary: v w) (auto split: outcome.splits)

lemma holds_default: "holds w Vector_default []"
  by (simp add: holds_def Vector_default_def RawMemory_default_def)

lemma value_construct_loop_block:
  "blocks w b = Some (pre @ replicate n Raw @ post) \<Longrightarrow> faults w = [] \<Longrightarrow>
   value_construct_loop T w d0 (Ptr b (length pre)) n =
     Ok (Ptr b (length pre + n)) (with_block w b (pre @ replicate n (Obj (value_init T)) @ post))"
proof (induction n arbitrary: w pre)
  case 0
  then show ?case by (simp add: with_block_same)
next
  case (Suc n)
  let ?w1 = "with_block w b ((pre @ [Obj (value_init T)]) @ replicate n Raw @ post)"
  have "blocks w b = Some (pre @ Raw # (replicate n Raw @ post))"
    using Suc.prems by simp
  then have "construct_at True w (Ptr b (length pre)) (value_init T) =
      Ok (Ptr b (length pre)) (with_block w b (pre @ Obj (value_init T) # (replicate n Raw @ post)))"
    using Suc.prems(2) by (rule construct_at_block)
  then have step: "construct_at True w (Ptr b (length pre)) (value_init T) = Ok (Ptr b (length pre)) ?w1"
    by simp
  have "value_construct_loop T ?w1 d0 (Ptr b (length (pre @ [Obj (value_init T)]))) n =
     Ok (Ptr b (length (pre @ [Obj (value_init T)]) + n))
        (with_block ?w1 b ((pre @ [Obj (value_init T)]) @ replicate n (Obj (value_init T)) @ post))"
    using Suc.prems by (intro Suc.IH) simp_all
  with step show ?case by (simp add: replicate_app_Cons_same)
qed

lemma Emplace_path_empty:
  assumes "Vector_end v = Some e" and "ptr_le (Vector_begin v) pos" and "ptr_le pos e"
    and "size_m v = 0"
    and "RawMemory_ctor w (if size_m v = 0 then 1 else size_m v * 2) = Ok nd w1"
    and "ptr_diff pos (GetAddress (data_m v)) = Some dist"
    and "RawMemory_plus nd dist = Some np"
    and "construct_at ct w1 np x = Ok res w2"
    and "RawMemory_dtor w2 (fst (RawMemory_Swap nd (data_m v))) = Some w6"
  shows "Emplace T ct v w pos x =
     Ok res (v\<lparr>data_m := snd (RawMemory_Swap nd (data_m v)), size_m := size_m v + 1\<rparr>, w6)"
  using assms by (simp add: Emplace_def)

lemma RawMemory_Swap_plain:
  "RawMemory_Swap \<lparr>buffer_m = p, capacity_m = c\<rparr> d = (d, \<lparr>buffer_m = p, capacity_m = c\<rparr>)"
  by (cases d) (simp add: RawMemory_Swap_def)

lemma Emplace_empty_result:
  assumes h: "holds w v []" and nf: "faults w = []" and ok: "heap_ok w"
  shows "Emplace T ct v w (Vector_begin v) x =
     Ok (Ptr (next_addr w) 0)
        (\<lparr>data_m = \<lparr>buffer_m = Ptr (next_addr w) 0, capacity_m = 1\<rparr>, size_m = 1\<rparr>,
         freed (with_block (bump w) (next_addr w) [Obj x]) (buffer_m (data_m v)))"
proof -
  define b where "b = next_addr w"
  define w1 where "w1 = with_block (bump w) b (replicate (Suc 0) Raw)"
  define w2 where "w2 = with_block w1 b ([] @ Obj x # [])"
  from h have sz: "size_m v = 0" by (simp add: holds_def)
  have rc: "RawMemory_ctor w (Suc 0) = Ok \<lparr>buffer_m = Ptr b 0, capacity_m = Suc 0\<rparr> w1"
    unfolding w1_def b_def using nf
    by (rule RawMemory_ctor_nofault) (simp_all add: heap_ok_fits_one[OF ok, simplified])
  have "blocks w1 b = Some ([] @ Raw # [])" by (simp add: w1_def)
  moreover have "faults w1 = []" using nf by (simp add: w1_def)
  ultimately have "construct_at ct w1 (Ptr b (length ([] :: 'a cell list))) x =
      Ok (Ptr b (length ([] :: 'a cell list))) w2"
    unfolding w2_def by (rule construct_at_block)
  then have ca: "construct_at ct w1 (Ptr b 0) x = Ok (Ptr b 0) w2" by simp
  have fresh: "\<forall>a. buffer_m (data_m v) = Ptr a 0 \<longrightarrow> a \<noteq> b"
    unfolding b_def using h ok by (rule holds_fresh)
  have "\<forall>a. buffer_m (data_m v) = Ptr a 0 \<longrightarrow> blocks w2 a \<noteq> None"
    using h fresh by (cases rule: holds_cases) (auto simp: w2_def w1_def)
  with h have dt: "RawMemory_dtor w2 (data_m v) = Some (freed w2 (buffer_m (data_m v)))"
    by (rule RawMemory_dtor_after)
  have w2: "w2 = with_block (bump w) b [Obj x]" by (simp add: w2_def w1_def)
  have pd: "ptr_diff (buffer_m (data_m v)) (buffer_m (data_m v)) = Some 0"
    and pl: "ptr_le (buffer_m (data_m v)) (buffer_m (data_m v))"
    and pa: "ptr_add (buffer_m (data_m v)) 0 = buffer_m (data_m v)"
    using h by (cases rule: holds_cases; simp)+
  have "Emplace T ct v w (Vector_begin v) x =
     Ok (Ptr b 0)
        (v\<lparr>data_m := snd (RawMemory_Swap \<lparr>buffer_m = Ptr b 0, capacity_m = Suc 0\<rparr> (data_m v)),
           size_m := size_m v + 1\<rparr>, freed w2 (buffer_m (data_m v)))"
  proof (rule Emplace_path_empty)
    show "Vector_end v = Some (buffer_m (data_m v))"
      by (simp add: Vector_end_def RawMemory_plus_def sz pa)
    show "ptr_le (Vector_begin v) (Vector_begin v)"
      by (simp add: Vector_begin_def GetAddress_def pl)
    show "ptr_le (Vector_begin v) (buffer_m (data_m v))"
      by (simp add: Vector_begin_def GetAddress_def pl)
    show "size_m v = 0" by (rule sz)
    show "RawMemory_ctor w (if size_m v = 0 then 1 else size_m v * 2) =
        Ok \<lparr>buffer_m = Ptr b 0, capacity_m = Suc 0\<rparr> w1"
      using rc by (simp add: sz)
    show "ptr_diff (Vector_begin v) (GetAddress (data_m v)) = Some 0"
      by (simp add: Vector_begin_def GetAddress_def pd)
    show "RawMemory_plus \<lparr>buffer_m = Ptr b 0, capacity_m = Suc 0\<rparr> 0 = Some (Ptr b 0)"
      by (simp add: RawMemory_plus_def)
    show "construct_at ct w1 (Ptr b 0) x = Ok (Ptr b 0) w2" by (rule ca)
    show "RawMemory_dtor w2 (fst (RawMemory_Swap \<lparr>buffer_m = Ptr b 0, capacity_m = Suc 0\<rparr> (data_m v)))
        = Some (freed w2 (buffer_m (data_m v)))"
      using dt by (simp add: RawMemory_Swap_plain)
  qed
  then show ?thesis
    by (simp add: RawMemory_Swap_plain sz w2 b_def)
qed

lemma copy_assign_loop_blocks:
  "blocks w r = Some (pr @ map Obj ys @ qr) \<Longrightarrow>
   blocks w a = Some (pa @ map Obj xs @ qa) \<Longrightarrow> length xs = length ys \<Longrightarrow> a \<noteq> r \<Longrightarrow>
   faults w = [] \<Longrightarrow>
   copy_assign_loop w (Ptr r (length pr)) (length ys) (Ptr a (length pa)) =
     Ok (Ptr a (length pa + length ys)) (with_block w a (pa @ map Obj ys @ qa))"
proof (induction ys arbitrary: w pr pa xs)
  case Nil
  then show ?case by (simp add: with_block_same)
next
  case (Cons y ys)
  from Cons.prems(3) obtain x xs' where xs: "xs = x # xs'" "length xs' = length ys"
    by (cases xs) auto
  let ?w1 = "with_block w a ((pa @ [Obj y]) @ map Obj xs' @ qa)"
  have step: "copy_assign w (Ptr r (length pr)) (Ptr a (length pa)) = Ok (Ptr a (length pa)) ?w1"
    using Cons.prems xs
    by (simp add: copy_assign_def cell_at_block store_block nth_append list_update_append)
  have "copy_assign_loop ?w1 (Ptr r (length (pr @ [Obj y]))) (length ys)
          (Ptr a (length (pa @ [Obj y]))) =
     Ok (Ptr a (length (pa @ [Obj y]) + length ys))
        (with_block ?w1 a ((pa @ [Obj y]) @ map Obj ys @ qa))"
    using Cons.prems xs by (intro Cons.IH[where xs=xs']) simp_all
  with step show ?case by simp
qed

lemma std_copy_prefix:
  assumes hr: "holds w rhs ys" and blk: "blocks w a = Some (map Obj xs @ qa)"
    and k: "k \<le> length ys" "k \<le> length xs"
    and ne: "buffer_m (data_m rhs) \<noteq> Ptr a 0" and nf: "faults w = []"
  shows "std_copy w (GetAddress (data_m rhs)) (ptr_add (buffer_m (data_m rhs)) k) (Ptr a 0) =
     Ok (Ptr a k) (with_block w a (map Obj (take k ys) @ map Obj (drop k xs) @ qa))"
  using hr
proof (cases rule: holds_cases)
  case null
  with k blk show ?thesis
    by (simp add: std_copy_def GetAddress_def with_block_same)
next
  case (block r)
  let ?capr = "capacity_m (data_m rhs)"
  from block ne have ar: "a \<noteq> r" by auto
  have "blocks w r = Some ([] @ map Obj (take k ys) @ (map Obj (drop k ys) @ replicate (?capr - length ys) Raw))"
    using block by (simp add: layout_def flip: map_append)
  moreover have "blocks w a = Some ([] @ map Obj (take k xs) @ (map Obj (drop k xs) @ qa))"
    using blk by (simp flip: map_append)
  moreover have "length (take k xs) = length (take k ys)" using k by simp
  ultimately have cl: "copy_assign_loop w (Ptr r (length ([] :: 'a cell list))) (length (take k ys))
      (Ptr a (length ([] :: 'a cell list))) =
     Ok (Ptr a (length ([] :: 'a cell list) + length (take k ys)))
        (with_block w a ([] @ map Obj (take k ys) @ (map Obj (drop k xs) @ qa)))"
    using ar nf by (rule copy_assign_loop_blocks)
  have "length (take k ys) = k" using k by simp
  with cl have "copy_assign_loop w (Ptr r 0) k (Ptr a 0) =
     Ok (Ptr a k) (with_block w a (map Obj (take k ys) @ map Obj (drop k xs) @ qa))"
    by (simp only: list.size append_Nil add_0)
  then show ?thesis
    using block by (simp add: std_copy_def GetAddress_def)
qed

lemma OpAssign_path_shrink:
  assumes "RawMemory_plus (data_m rhs) (min (size_m rhs) (size_m this)) = Some rl"
    and "std_copy w (GetAddress (data_m rhs)) rl (GetAddress (data_m this)) = Ok p w1"
    and "size_m rhs < size_m this"
    and "RawMemory_plus (data_m this) (size_m rhs) = Some t"
    and "destroy_n w1 t (size_m this - size_m rhs) = Some w2"
  shows "OpAssignRhsSizeLessCap this w rhs = Ok () (this, w2)"
  using assms by (simp add: OpAssignRhsSizeLessCap_def)

lemma OpAssign_path_same:
  assumes "RawMemory_plus (data_m rhs) (min (size_m rhs) (size_m this)) = Some rl"
    and "std_copy w (GetAddress (data_m rhs)) rl (GetAddress (data_m this)) = Ok p w1"
    and "size_m rhs = size_m this"
  shows "OpAssignRhsSizeLessCap this w rhs = Ok () (this, w1)"
  using assms by (simp add: OpAssignRhsSizeLessCap_def)

lemma OpAssign_path_grow:
  assumes "RawMemory_plus (data_m rhs) (min (size_m rhs) (size_m this)) = Some rl"
    and "std_copy w (GetAddress (data_m rhs)) rl (GetAddress (data_m this)) = Ok p w1"
    and "size_m rhs > size_m this"
    and "RawMemory_plus (data_m rhs) (size_m this) = Some rs"
    and "RawMemory_plus (data_m this) (size_m this) = Some t"
    and "uninitialized_copy_n w1 rs (size_m rhs - size_m this) t = Ok q w3"
  shows "OpAssignRhsSizeLessCap this w rhs = Ok () (this, w3)"
  using assms by (simp add: OpAssignRhsSizeLessCap_def)

lemma layout_split:
  "length xs \<le> c \<Longrightarrow> k \<le> length xs \<Longrightarrow>
   layout xs c = map Obj (take k xs) @ map Obj (drop k xs) @ replicate (c - length xs) Raw"
  by (simp add: layout_def flip: map_append)

lemma OpAssign_result:
  assumes ht: "holds w this xs" and hr: "holds w rhs ys" and nf: "faults w = []"
    and fit: "length ys \<le> capacity_m (data_m this)"
    and buf: "buffer_m (data_m this) = Ptr a 0"
    and ne: "buffer_m (data_m rhs) \<noteq> Ptr a 0"
  shows "OpAssignRhsSizeLessCap this w rhs =
     Ok () (this, with_block w a (layout ys (capacity_m (data_m this))))"
proof -
  let ?cap = "capacity_m (data_m this)"
  let ?raws = "replicate (?cap - length xs) (Raw :: 'a cell)"
  define k where "k = min (length ys) (length xs)"
  define w1 where "w1 = with_block w a (map Obj (take k ys) @ map Obj (drop k xs) @ ?raws)"
  from ht buf have szt: "size_m this = length xs" and capt: "length xs \<le> ?cap"
    and blk: "blocks w a = Some (layout xs ?cap)"
    by (auto simp: holds_def)
  from hr have szr: "size_m rhs = length ys" and capr: "length ys \<le> capacity_m (data_m rhs)"
    by (auto simp: holds_def)
  have k: "k \<le> length ys" "k \<le> length xs" by (simp_all add: k_def)
  have blk': "blocks w a = Some (map Obj xs @ ?raws)" using blk by (simp add: layout_def)
  have sc: "std_copy w (GetAddress (data_m rhs)) (ptr_add (buffer_m (data_m rhs)) k) (Ptr a 0) =
      Ok (Ptr a k) w1"
    unfolding w1_def using hr blk' k ne nf by (rule std_copy_prefix)
  have rl: "RawMemory_plus (data_m rhs) (min (size_m rhs) (size_m this)) =
      Some (ptr_add (buffer_m (data_m rhs)) k)"
    using capr by (simp add: RawMemory_plus_def szr szt k_def)
  have sc': "std_copy w (GetAddress (data_m rhs)) (ptr_add (buffer_m (data_m rhs)) k)
      (GetAddress (data_m this)) = Ok (Ptr a k) w1"
    using sc by (simp add: GetAddress_def buf)
  have nf1: "faults w1 = []" using nf by (simp add: w1_def)
  consider (shrink) "length ys < length xs" | (same) "length ys = length xs"
    | (grow) "length xs < length ys"
    by linarith
  then show ?thesis
  proof cases
    case shrink
    then have kk: "k = length ys" by (simp add: k_def)
    let ?zs = "drop (length ys) xs"
    have "blocks w1 a = Some (map Obj ys @ map Obj ?zs @ ?raws)"
      by (simp add: w1_def kk)
    then have "destroy_n w1 (Ptr a (length (map Obj ys))) (length ?zs) =
        Some (with_block w1 a (map Obj ys @ replicate (length ?zs) Raw @ ?raws))"
      by (rule destroy_n_block)
    moreover have "replicate (length ?zs) Raw @ ?raws = replicate (?cap - length ys) (Raw :: 'a cell)"
      using shrink capt by (simp flip: replicate_add)
    ultimately have ds: "destroy_n w1 (Ptr a (length ys)) (length xs - length ys) =
        Some (with_block w a (layout ys ?cap))"
      by (simp add: w1_def layout_def)
    show ?thesis
    proof (rule OpAssign_path_shrink)
      show "RawMemory_plus (data_m rhs) (min (size_m rhs) (size_m this)) =
          Some (ptr_add (buffer_m (data_m rhs)) k)" by (rule rl)
      show "std_copy w (GetAddress (data_m rhs)) (ptr_add (buffer_m (data_m rhs)) k)
          (GetAddress (data_m this)) = Ok (Ptr a k) w1" by (rule sc')
      show "size_m rhs < size_m this" using shrink by (simp add: szr szt)
      show "RawMemory_plus (data_m this) (size_m rhs) = Some (Ptr a (length ys))"
        using fit by (simp add: RawMemory_plus_def szr buf)
      show "destroy_n w1 (Ptr a (length ys)) (size_m this - size_m rhs) =
          Some (with_block w a (layout ys ?cap))"
        using ds by (simp add: szr szt)
    qed
  next
    case same
    then have kk: "k = length ys" by (simp add: k_def)
    have "w1 = with_block w a (layout ys ?cap)"
      using same by (simp add: w1_def kk layout_def)
    with sc' have sc'': "std_copy w (GetAddress (data_m rhs)) (ptr_add (buffer_m (data_m rhs)) k)
          (GetAddress (data_m this)) = Ok (Ptr a k) (with_block w a (layout ys ?cap))"
      by simp
    show ?thesis
    proof (rule OpAssign_path_same)
      show "RawMemory_plus (data_m rhs) (min (size_m rhs) (size_m this)) =
          Some (ptr_add (buffer_m (data_m rhs)) k)" by (rule rl)
      show "std_copy w (GetAddress (data_m rhs)) (ptr_add (buffer_m (data_m rhs)) k)
          (GetAddress (data_m this)) = Ok (Ptr a k) (with_block w a (layout ys ?cap))"
        by (rule sc'')
      show "size_m rhs = size_m this" using same by (simp add: szr szt)
    qed
  next
    case grow
    then have kk: "k = length xs" by (simp add: k_def)
    from grow have "ys \<noteq> []" by auto
    with hr obtain r where bufr: "buffer_m (data_m rhs) = Ptr r 0"
      and blkr: "blocks w r = Some (layout ys (capacity_m (data_m rhs)))"
      by (cases rule: holds_cases) auto
    from ne bufr have ar: "a \<noteq> r" by auto
    let ?pre = "map Obj (take (length xs) ys)"
    let ?new = "drop (length xs) ys"
    let ?post = "replicate (?cap - length ys) (Raw :: 'a cell)"
    have lp: "length ?pre = length xs" using grow by simp
    have ln: "length ?new = length ys - length xs" by simp
    have b1r: "blocks w1 r = Some (?pre @ map Obj ?new @
        replicate (capacity_m (data_m rhs) - length ys) Raw)"
      using blkr ar capr grow layout_split[of ys "capacity_m (data_m rhs)" "length xs"]
      by (simp add: w1_def)
    have "?raws = replicate (length ?new) Raw @ ?post"
      using grow fit by (simp flip: replicate_add)
    then have b1a: "blocks w1 a = Some (?pre @ replicate (length ?new) Raw @ ?post)"
      by (simp add: w1_def kk)
    have cl: "copy_construct_loop w1 (Ptr r (length ?pre)) (length ?new) (Ptr a (length xs))
        (Ptr a (length ?pre)) =
      Ok (Ptr a (length ?pre + length ?new)) (with_block w1 a (?pre @ map Obj ?new @ ?post))"
      using b1r b1a ar[symmetric] nf1 by (rule copy_construct_loop_blocks)
    have eq: "?pre @ map Obj ?new @ ?post = layout ys ?cap"
      using fit grow layout_split[of ys ?cap "length xs"] by simp
    have w1a: "with_block w1 a (layout ys ?cap) = with_block w a (layout ys ?cap)"
      by (simp add: w1_def)
    have "copy_construct_loop w1 (Ptr r (length xs)) (length ys - length xs) (Ptr a (length xs))
        (Ptr a (length xs)) =
      Ok (Ptr a (length xs + (length ys - length xs))) (with_block w a (layout ys ?cap))"
      using cl unfolding lp ln eq w1a .
    then have uc: "uninitialized_copy_n w1 (Ptr r (length xs)) (length ys - length xs)
        (Ptr a (length xs)) = Ok (Ptr a (length xs + (length ys - length xs)))
          (with_block w a (layout ys ?cap))"
      by (simp only: uninitialized_copy_n_def)
    show ?thesis
    proof (rule OpAssign_path_grow)
      show "RawMemory_plus (data_m rhs) (min (size_m rhs) (size_m this)) =
          Some (ptr_add (buffer_m (data_m rhs)) k)" by (rule rl)
      show "std_copy w (GetAddress (data_m rhs)) (ptr_add (buffer_m (data_m rhs)) k)
          (GetAddress (data_m this)) = Ok (Ptr a k) w1" by (rule sc')
      show "size_m this < size_m rhs" using grow by (simp add: szr szt)
      show "RawMemory_plus (data_m rhs) (size_m this) = Some (Ptr r (length xs))"
        using grow capr by (simp add: RawMemory_plus_def szt bufr)
      show "RawMemory_plus (data_m this) (size_m this) = Some (Ptr a (length xs))"
        using capt by (simp add: RawMemory_plus_def szt buf)
      show "uninitialized_copy_n w1 (Ptr r (length xs)) (size_m rhs - size_m this)
          (Ptr a (length xs)) = Ok (Ptr a (length xs + (length ys - length xs)))
          (with_block w a (layout ys ?cap))"
        using uc by (simp add: szr szt)
    qed
  qed
qed

lemma Vector_dtor_result:
  assumes "holds w v xs"
  shows "Vector_dtor w v = Some (freed w (buffer_m (data_m v)))"
  using assms
proof (cases rule: holds_cases)
  case null
  then show ?thesis
    by (simp add: Vector_dtor_def GetAddress_def RawMemory_dtor_def Deallocate_def
        operator_delete_def freed_def)
next
  case (block a)
  let ?raws = "replicate (capacity_m (data_m v) - length xs) (Raw :: 'a cell)"
  have "blocks w a = Some ([] @ map Obj xs @ ?raws)"
    using block by (simp add: layout_def)
  then have "destroy_n w (Ptr a (length ([] :: 'a cell list))) (length xs) =
      Some (with_block w a ([] @ replicate (length xs) Raw @ ?raws))"
    by (rule destroy_n_block)
  then have "destroy_n w (Ptr a 0) (length xs) =
      Some (with_block w a (replicate (length xs) Raw @ ?raws))"
    by simp
  then show ?thesis
    using block
    by (simp add: Vector_dtor_def GetAddress_def RawMemory_dtor_def Deallocate_def
        operator_delete_def freed_def without_block_def with_block_def)
qed

lemma Vector_copy_ctor_result:
  assumes hr: "holds w rhs ys" and nf: "faults w = []" and ok: "heap_ok w" and ne: "ys \<noteq> []"
  shows "Vector_copy_ctor w rhs =
     Ok \<lparr>data_m = \<lparr>buffer_m = Ptr (next_addr w) 0, capacity_m = length ys\<rparr>, size_m = length ys\<rparr>
        (with_block (bump w) (next_addr w) (map Obj ys))"
proof -
  define b where "b = next_addr w"
  define n where "n = length ys"
  define w1 where "w1 = with_block (bump w) b (replicate n Raw)"
  from hr ne obtain r where bufr: "buffer_m (data_m rhs) = Ptr r 0"
    and blkr: "blocks w r = Some (layout ys (capacity_m (data_m rhs)))"
    and szr: "size_m rhs = n"
    by (cases rule: holds_cases) (auto simp: n_def)
  have n0: "n \<noteq> 0" using ne by (simp add: n_def)
  from hr have "n \<le> length (layout ys (capacity_m (data_m rhs)))"
    by (simp add: holds_def layout_def n_def)
  with heap_ok_fits_block[OF ok blkr] have fn: "fits w n" by (rule fits_mono)
  have rc: "RawMemory_ctor w n = Ok \<lparr>buffer_m = Ptr b 0, capacity_m = n\<rparr> w1"
    unfolding w1_def b_def using nf n0 fn by (rule RawMemory_ctor_nofault)
  have rb: "r \<noteq> b" using heap_ok_live[OF ok blkr] by (simp add: b_def)
  have "blocks w1 r = Some ([] @ map Obj ys @ replicate (capacity_m (data_m rhs) - length ys) Raw)"
    using blkr rb by (simp add: w1_def layout_def)
  moreover have "blocks w1 b = Some ([] @ replicate (length ys) Raw @ [])"
    by (simp add: w1_def n_def)
  moreover have "faults w1 = []" using nf by (simp add: w1_def)
  ultimately have "copy_construct_loop w1 (Ptr r (length ([] :: 'a cell list))) (length ys) (Ptr b 0)
      (Ptr b (length ([] :: 'a cell list))) =
      Ok (Ptr b (length ([] :: 'a cell list) + length ys)) (with_block w1 b ([] @ map Obj ys @ []))"
    using rb by (intro copy_construct_loop_blocks)
  then have uc: "uninitialized_copy_n w1 (Ptr r 0) n (Ptr b 0) =
      Ok (Ptr b n) (with_block (bump w) b (map Obj ys))"
    by (simp add: uninitialized_copy_n_def w1_def n_def)
  show ?thesis
    by (simp add: Vector_copy_ctor_def szr rc GetAddress_def bufr uc
        flip: n_def b_def)
qed

lemma Vector_Swap_plain:
  "Vector_Swap this \<lparr>data_m = d, size_m = n\<rparr> =
     (\<lparr>data_m = d, size_m = n\<rparr>, this)"
proof -
  obtain dt st where t: "this = \<lparr>data_m = dt, size_m = st\<rparr>" by (cases this)
  obtain pt ct where dt: "dt = \<lparr>buffer_m = pt, capacity_m = ct\<rparr>" by (cases dt)
  obtain pd cd where d: "d = \<lparr>buffer_m = pd, capacity_m = cd\<rparr>" by (cases d)
  show ?thesis by (simp add: t dt d Vector_Swap_def RawMemory_Swap_def)
qed

lemma copy_assign_path_realloc:
  assumes "size_m rhs > Capacity this"
    and "Vector_copy_ctor w rhs = Ok to_copy w1"
    and "Vector_dtor w1 (snd (Vector_Swap this to_copy)) = Some w2"
  shows "Vector_copy_assign this w (Another rhs) =
     Ok () ((fst (Vector_Swap this to_copy))\<lparr>size_m := size_m rhs\<rparr>, w2)"
  using assms by (simp add: Vector_copy_assign_def)

lemma copy_assign_path_inplace:
  assumes "\<not> size_m rhs > Capacity this"
    and "OpAssignRhsSizeLessCap this w rhs = Ok () (this1, w1)"
  shows "Vector_copy_assign this w (Another rhs) = Ok () (this1\<lparr>size_m := size_m rhs\<rparr>, w1)"
  using assms by (simp add: Vector_copy_assign_def)

lemma Emplace_path_full:
  assumes "Vector_end v = Some e" and "ptr_le (Vector_begin v) pos" and "ptr_le pos e"
    and "\<not> (size_m v < Capacity v \<and> size_m v \<noteq> 0)" and "size_m v \<noteq> 0"
    and "RawMemory_ctor w (if size_m v = 0 then 1 else size_m v * 2) = Ok nd w1"
    and "ptr_diff pos (GetAddress (data_m v)) = Some dist"
    and "RawMemory_plus nd dist = Some np"
    and "construct_at ct w1 np x = Ok res w2"
    and "CopyOrMove T w2 (GetAddress (data_m v)) dist (GetAddress nd) = Ok q3 w3"
    and "CopyOrMove T w3 pos (size_m v - dist) (ptr_add np 1) = Ok q4 w4"
    and "destroy_n w4 (GetAddress (data_m v)) (size_m v) = Some w5"
    and "RawMemory_dtor w5 (fst (RawMemory_Swap nd (data_m v))) = Some w6"
  shows "Emplace T ct v w pos x =
     Ok res (v\<lparr>data_m := snd (RawMemory_Swap nd (data_m v)), size_m := size_m v + 1\<rparr>, w6)"
  using assms by (simp add: Emplace_def)

lemma Emplace_full_result:
  assumes h: "holds w v xs" and nf: "faults w = []" and ok: "heap_ok w"
    and ne: "xs \<noteq> []" and full: "length xs = capacity_m (data_m v)" and p: "p \<le> length xs"
    and buf: "buffer_m (data_m v) = Ptr a 0" and room: "fits w (length xs * 2)"
  shows "Emplace T ct v w (Ptr a p) x =
     Ok (Ptr (next_addr w) p)
        (\<lparr>data_m = \<lparr>buffer_m = Ptr (next_addr w) 0, capacity_m = length xs * 2\<rparr>,
          size_m = Suc (length xs)\<rparr>,
         without_block (with_block (bump w) (next_addr w)
            (layout (take p xs @ x # drop p xs) (length xs * 2))) a)"
proof -
  define n where "n = length xs"
  define c where "c = n * 2"
  define b where "b = next_addr w"
  define xs1 where "xs1 = take p xs"
  define xs2 where "xs2 = drop p xs"
  define post where "post = replicate (c - Suc n) (Raw :: 'a cell)"
  define w1 where "w1 = with_block (bump w) b (replicate c Raw)"
  define w2 where "w2 = with_block w1 b (replicate p Raw @ Obj x # replicate (n - p) Raw @ post)"
  define w3 where "w3 = with_block (with_block w2 a ([] @ map Obj (map (residue T) xs1) @ map Obj xs2)) b
      ([] @ map Obj xs1 @ (Obj x # replicate (n - p) Raw @ post))"
  define w4 where "w4 = with_block (with_block w3 a
        (map Obj (map (residue T) xs1) @ map Obj (map (residue T) xs2) @ [])) b
      ((map Obj xs1 @ [Obj x]) @ map Obj xs2 @ post)"
  define w5 where "w5 = with_block w4 a ([] @ replicate (length (map (residue T) xs)) Raw @ [])"
  from h buf full have sz: "size_m v = n" and blk: "blocks w a = Some (map Obj xs)"
    by (auto simp: holds_def n_def layout_def)
  have n0: "n \<noteq> 0" using ne by (simp add: n_def)
  have pn: "p \<le> n" using p by (simp add: n_def)
  have l1: "length xs1 = p" using p by (simp add: xs1_def)
  have l2: "length xs2 = n - p" by (simp add: xs2_def n_def)
  have xs: "xs = xs1 @ xs2" by (simp add: xs1_def xs2_def)
  have ab: "a \<noteq> b" using heap_ok_live[OF ok blk] by (simp add: b_def)
  have c0: "c \<noteq> 0" "n < c" "p \<le> c" using n0 pn by (simp_all add: c_def)
  have fc: "fits w c" using room by (simp add: c_def n_def)
  have rc: "RawMemory_ctor w c = Ok \<lparr>buffer_m = Ptr b 0, capacity_m = c\<rparr> w1"
    unfolding w1_def b_def using nf c0(1) fc by (rule RawMemory_ctor_nofault)
  have nf1: "faults w1 = []" using nf by (simp add: w1_def)
  have "c = p + Suc ((n - p) + (c - Suc n))" using pn c0 by simp
  then have "replicate c (Raw :: 'a cell) = replicate (p + Suc ((n - p) + (c - Suc n))) Raw"
    by simp
  then have rs: "replicate c (Raw :: 'a cell) = replicate p Raw @ Raw # replicate (n - p) Raw @ post"
    by (simp only: replicate_add replicate.simps post_def)
  then have "blocks w1 b = Some (replicate p Raw @ Raw # (replicate (n - p) Raw @ post))"
    by (simp add: w1_def)
  then have "construct_at ct w1 (Ptr b (length (replicate p (Raw :: 'a cell)))) x =
      Ok (Ptr b (length (replicate p (Raw :: 'a cell))))
         (with_block w1 b (replicate p Raw @ Obj x # (replicate (n - p) Raw @ post)))"
    using nf1 by (rule construct_at_block)
  then have ca: "construct_at ct w1 (Ptr b p) x = Ok (Ptr b p) w2"
    by (simp add: w2_def)
  have nf2: "faults w2 = []" using nf1 by (simp add: w2_def)
  have "blocks w2 a = Some ([] @ map Obj xs1 @ map Obj xs2)"
    using blk ab xs by (simp add: w2_def w1_def)
  moreover have "blocks w2 b = Some ([] @ replicate (length xs1) Raw @ (Obj x # replicate (n - p) Raw @ post))"
    by (simp add: w2_def l1)
  ultimately have "CopyOrMove T w2 (Ptr a (length ([] :: 'a cell list))) (length xs1)
      (Ptr b (length ([] :: 'a cell list))) = Ok (Ptr b (length ([] :: 'a cell list) + length xs1)) w3"
    unfolding w3_def using ab nf2 by (rule CopyOrMove_blocks)
  then have cm1: "CopyOrMove T w2 (Ptr a 0) p (Ptr b 0) = Ok (Ptr b p) w3"
    by (simp add: l1)
  have nf3: "faults w3 = []" using nf2 by (simp add: w3_def)
  have "blocks w3 a = Some (map Obj (map (residue T) xs1) @ map Obj xs2 @ [])"
    using ab by (simp add: w3_def)
  moreover have "blocks w3 b = Some ((map Obj xs1 @ [Obj x]) @ replicate (length xs2) Raw @ post)"
    by (simp add: w3_def l2)
  ultimately have "CopyOrMove T w3 (Ptr a (length (map Obj (map (residue T) xs1)))) (length xs2)
      (Ptr b (length (map Obj xs1 @ [Obj x]))) =
      Ok (Ptr b (length (map Obj xs1 @ [Obj x]) + length xs2)) w4"
    unfolding w4_def using ab nf3 by (rule CopyOrMove_blocks)
  then have cm2: "CopyOrMove T w3 (Ptr a p) (n - p) (Ptr b (Suc p)) = Ok (Ptr b (Suc p + (n - p))) w4"
    by (simp add: l1 l2)
  have "blocks w4 a = Some ([] @ map Obj (map (residue T) xs) @ [])"
    using ab xs by (simp add: w4_def)
  then have "destroy_n w4 (Ptr a (length ([] :: 'a cell list))) (length (map (residue T) xs)) = Some w5"
    unfolding w5_def by (rule destroy_n_block)
  then have ds: "destroy_n w4 (Ptr a 0) n = Some w5"
    by (simp add: n_def)
  have "blocks w5 a \<noteq> None" by (simp add: w5_def)
  then have dt: "RawMemory_dtor w5 (data_m v) = Some (without_block w5 a)"
    by (auto simp: RawMemory_dtor_def Deallocate_def operator_delete_def buf without_block_def)
  have "take p xs @ x # drop p xs = (xs1 @ [x]) @ xs2" by (simp add: xs1_def xs2_def)
  then have "layout (take p xs @ x # drop p xs) c = (map Obj xs1 @ [Obj x]) @ map Obj xs2 @ post"
    using pn by (simp add: layout_def post_def l1 l2)
  then have fin: "without_block w5 a = without_block (with_block (bump w) b
      (layout (take p xs @ x # drop p xs) c)) a"
    using ab
    by (simp add: w5_def w4_def w3_def w2_def w1_def with_block_commute[of a b])
  have "Emplace T ct v w (Ptr a p) x =
     Ok (Ptr b p)
        (v\<lparr>data_m := snd (RawMemory_Swap \<lparr>buffer_m = Ptr b 0, capacity_m = c\<rparr> (data_m v)),
           size_m := size_m v + 1\<rparr>, without_block w5 a)"
  proof (rule Emplace_path_full)
    show "Vector_end v = Some (Ptr a n)"
      using full by (simp add: Vector_end_def RawMemory_plus_def sz buf n_def)
    show "ptr_le (Vector_begin v) (Ptr a p)"
      by (simp add: Vector_begin_def GetAddress_def buf)
    show "ptr_le (Ptr a p) (Ptr a n)" using pn by simp
    show "\<not> (size_m v < Capacity v \<and> size_m v \<noteq> 0)"
      using full by (simp add: sz Capacity_def RawMemory_Capacity_def n_def)
    show "size_m v \<noteq> 0" using n0 by (simp add: sz)
    show "RawMemory_ctor w (if size_m v = 0 then 1 else size_m v * 2) =
        Ok \<lparr>buffer_m = Ptr b 0, capacity_m = c\<rparr> w1"
      using rc n0 by (simp add: sz c_def)
    show "ptr_diff (Ptr a p) (GetAddress (data_m v)) = Some p"
      by (simp add: GetAddress_def buf)
    show "RawMemory_plus \<lparr>buffer_m = Ptr b 0, capacity_m = c\<rparr> p = Some (Ptr b p)"
      using c0 by (simp add: RawMemory_plus_def)
    show "construct_at ct w1 (Ptr b p) x = Ok (Ptr b p) w2" by (rule ca)
    show "CopyOrMove T w2 (GetAddress (data_m v)) p
        (GetAddress \<lparr>buffer_m = Ptr b 0, capacity_m = c\<rparr>) = Ok (Ptr b p) w3"
      using cm1 by (simp add: GetAddress_def buf)
    show "CopyOrMove T w3 (Ptr a p) (size_m v - p) (ptr_add (Ptr b p) 1) =
        Ok (Ptr b (Suc p + (n - p))) w4"
      using cm2 by (simp add: sz)
    show "destroy_n w4 (GetAddress (data_m v)) (size_m v) = Some w5"
      using ds by (simp add: GetAddress_def buf sz)
    show "RawMemory_dtor w5 (fst (RawMemory_Swap \<lparr>buffer_m = Ptr b 0, capacity_m = c\<rparr> (data_m v)))
        = Some (without_block w5 a)"
      using dt by (simp add: RawMemory_Swap_plain)
  qed
  then show ?thesis
    by (simp add: RawMemory_Swap_plain sz fin c_def n_def b_def)
qed

lemma Emplace_path_bad_range:
  assumes "Vector_end v = Some e" and "ptr_le (Vector_begin v) pos" and "ptr_le pos e"
    and "size_m v < Capacity v \<and> size_m v \<noteq> 0"
    and "new_T ct w x = Ok tmp w1"
    and "ptr_pred e = Some l"
    and "CopyOrMove T w1 l 1 e = Ok q2 w2"
    and "std_move_backward T w2 pos l e = Undefined"
  shows "Emplace T ct v w pos x = Undefined"
  using assms by (simp add: Emplace_def)

lemma Emplace_end_spare_undefined:
  assumes h: "holds w v xs" and nf: "faults w = []" and ok: "heap_ok w"
    and ne: "xs \<noteq> []" and spare: "length xs < capacity_m (data_m v)"
    and e: "Vector_end v = Some e"
  shows "Emplace T ct v w e x = Undefined"
proof -
  let ?cap = "capacity_m (data_m v)"
  define n where "n = length xs"
  define t where "t = next_addr w"
  define w1 where "w1 = with_block (bump w) t [Obj x]"
  define pre where "pre = map Obj (butlast xs)"
  define post where "post = replicate (?cap - Suc n) (Raw :: 'a cell)"
  from h ne obtain a where buf: "buffer_m (data_m v) = Ptr a 0"
    and blk: "blocks w a = Some (layout xs ?cap)" and sz: "size_m v = n"
    by (cases rule: holds_cases) (auto simp: n_def)
  have n: "0 < n" "n < ?cap" using ne spare by (simp_all add: n_def)
  from e have e': "e = Ptr a n"
    using n by (simp add: Vector_end_def RawMemory_plus_def sz buf)
  have at: "a \<noteq> t" using heap_ok_live[OF ok blk] by (simp add: t_def)
  have lp: "length pre = n - Suc 0" by (simp add: pre_def n_def)
  have nt: "new_T ct w x = Ok (Ptr t 0) w1"
    unfolding w1_def t_def using nf heap_ok_sizeof[OF ok] by (rule new_T_nofault)
  have nf1: "faults w1 = []" using nf by (simp add: w1_def)
  have "replicate (?cap - n) (Raw :: 'a cell) = Raw # post"
    using n by (cases "?cap - n") (auto simp: post_def)
  moreover have "map Obj xs = pre @ [Obj (last xs)]"
  proof -
    have "map Obj (butlast xs @ [last xs]) = map Obj xs"
      using append_butlast_last_id[OF ne] by (simp only:)
    then have "map Obj (butlast xs) @ [Obj (last xs)] = map Obj xs"
      by (simp only: map_append list.map)
    then show ?thesis by (simp only: pre_def)
  qed
  ultimately have "layout xs ?cap = pre @ Obj (last xs) # Raw # post"
    by (simp add: layout_def n_def)
  then have "blocks w1 a = Some (pre @ Obj (last xs) # Raw # post)"
    using blk at by (simp add: w1_def)
  then have "CopyOrMove T w1 (Ptr a (length pre)) (Suc 0) (Ptr a (Suc (length pre))) =
     Ok (Ptr a (Suc (Suc (length pre))))
        (with_block w1 a (pre @ Obj (residue T (last xs)) # Obj (last xs) # post))"
    using nf1 by (rule CopyOrMove_one_block)
  moreover have "Suc (n - Suc 0) = n" using n by simp
  ultimately have cm: "CopyOrMove T w1 (Ptr a (n - Suc 0)) 1 (Ptr a n) =
     Ok (Ptr a (Suc n))
        (with_block w1 a (pre @ Obj (residue T (last xs)) # Obj (last xs) # post))"
    by (simp add: lp)
  show ?thesis
    unfolding e'
  proof (rule Emplace_path_bad_range)
    show "Vector_end v = Some (Ptr a n)" using e e' by simp
    show "ptr_le (Vector_begin v) (Ptr a n)" by (simp add: Vector_begin_def GetAddress_def buf)
    show "ptr_le (Ptr a n) (Ptr a n)" by simp
    show "size_m v < Capacity v \<and> size_m v \<noteq> 0"
      using n by (simp add: sz Capacity_def RawMemory_Capacity_def)
    show "new_T ct w x = Ok (Ptr t 0) w1" by (rule nt)
    show "ptr_pred (Ptr a n) = Some (Ptr a (n - Suc 0))" using n by (cases n) simp_all
    show "CopyOrMove T w1 (Ptr a (n - Suc 0)) 1 (Ptr a n) =
     Ok (Ptr a (Suc n))
        (with_block w1 a (pre @ Obj (residue T (last xs)) # Obj (last xs) # post))"
      by (rule cm)
    show "std_move_backward T
        (with_block w1 a (pre @ Obj (residue T (last xs)) # Obj (last xs) # post))
        (Ptr a n) (Ptr a (n - Suc 0)) (Ptr a n) = Undefined"
      using n by (simp add: std_move_backward_def)
  qed
qed

lemma Erase_holds:
  assumes h: "holds w v ys" and nf: "faults w = []" and p: "p < length ys"
    and buf: "buffer_m (data_m v) = Ptr a 0"
  shows "\<exists>v' w'. Erase T v w (Ptr a p) = Ok (Ptr a p) (v', w') \<and>
           holds w' v' (take p ys @ drop (Suc p) ys)"
proof -
  let ?ys = "take p ys @ drop (Suc p) ys"
  let ?v' = "v\<lparr>size_m := length ys - 1\<rparr>"
  let ?w' = "with_block w a (layout ?ys (capacity_m (data_m v)))"
  have run: "Erase T v w (Ptr a p) = Ok (Ptr a p) (?v', ?w')"
    using h nf p buf by (rule Erase_result)
  from h have "length ys \<le> capacity_m (data_m v)" by (simp add: holds_def)
  moreover have "length ?ys = length ys - 1" using p by simp
  ultimately have "holds ?w' ?v' ?ys"
    using p buf by (simp add: holds_def)
  with run show ?thesis by blast
qed

lemma insert_erase_list:
  "p \<le> length xs \<Longrightarrow>
   take p (take p xs @ x # drop p xs) @ drop (Suc p) (take p xs @ x # drop p xs) = xs"
  by (simp add: min_def)

lemma ptr_add_begin:
  assumes "holds w v xs" and "p \<le> length xs"
  shows "ptr_add (Vector_begin v) p =
    (case buffer_m (data_m v) of Null \<Rightarrow> Null | Ptr a i \<Rightarrow> Ptr a p)"
  using assms(1) by (cases rule: holds_cases) (simp_all add: Vector_begin_def GetAddress_def)

text \<open>
  Inserting at position \<open>p\<close> and erasing at the returned position gives back the
  sequence, for every position but \<^verbatim>\<open>end()\<close> of a non-empty vector with spare capacity.
\<close>

lemma Emplace_then_Erase_restores:
  assumes h: "holds w v xs" and nf: "faults w = []" and ok: "heap_ok w"
    and p: "p \<le> length xs"
    and good: "p < length xs \<or> xs = [] \<or> length xs = capacity_m (data_m v)"
    and room: "fits w (length xs * 2)"
  shows "\<exists>q v1 w1 v2 w2.
           Emplace T ct v w (ptr_add (Vector_begin v) p) x = Ok q (v1, w1) \<and>
           holds w1 v1 (take p xs @ x # drop p xs) \<and>
           Erase T v1 w1 q = Ok q (v2, w2) \<and> holds w2 v2 xs"
proof -
  let ?ys = "take p xs @ x # drop p xs"
  have rest: "take p ?ys @ drop (Suc p) ?ys = xs" using p by (rule insert_erase_list)
  have pys: "p < length ?ys" using p by simp
  have step: "\<exists>q v1 w1 v2 w2.
           Emplace T ct v w pos x = Ok q (v1, w1) \<and> holds w1 v1 ?ys \<and>
           Erase T v1 w1 q = Ok q (v2, w2) \<and> holds w2 v2 xs"
    if run: "Emplace T ct v w pos x = Ok (Ptr b p) (v1, w1)" and h1: "holds w1 v1 ?ys"
      and nf1: "faults w1 = []" and b1: "buffer_m (data_m v1) = Ptr b 0"
    for pos b v1 w1
  proof -
    from Erase_holds[OF h1 nf1 pys b1, of T]
    obtain v2 w2 where "Erase T v1 w1 (Ptr b p) = Ok (Ptr b p) (v2, w2)" and "holds w2 v2 xs"
      unfolding rest by blast
    with run h1 show ?thesis by blast
  qed
  from h have "length xs \<le> capacity_m (data_m v)" by (simp add: holds_def)
  then consider (empty) "xs = []" | (inplace) "xs \<noteq> []" "length xs < capacity_m (data_m v)"
    | (full) "xs \<noteq> []" "length xs = capacity_m (data_m v)"
    by (cases "xs = []"; cases "length xs = capacity_m (data_m v)") auto
  then show ?thesis
  proof cases
    case empty
    then have p0: "p = 0" using p by simp
    have pos: "ptr_add (Vector_begin v) 0 = Vector_begin v"
      using h by (cases rule: holds_cases) (simp_all add: Vector_begin_def GetAddress_def)
    let ?b = "next_addr w"
    let ?v1 = "\<lparr>data_m = \<lparr>buffer_m = Ptr ?b 0, capacity_m = 1\<rparr>, size_m = 1\<rparr>"
    let ?w1 = "freed (with_block (bump w) ?b [Obj x]) (buffer_m (data_m v))"
    have run: "Emplace T ct v w (ptr_add (Vector_begin v) p) x = Ok (Ptr ?b p) (?v1, ?w1)"
      unfolding p0 pos using h nf ok unfolding empty by (rule Emplace_empty_result)
    have "\<forall>a. buffer_m (data_m v) = Ptr a 0 \<longrightarrow> a \<noteq> ?b"
      using h ok by (rule holds_fresh)
    with h have "\<forall>a i. buffer_m (data_m v) = Ptr a i \<longrightarrow> a \<noteq> ?b"
      by (cases rule: holds_cases) auto
    then have "blocks ?w1 ?b = Some [Obj x]" by (simp add: blocks_freed_other)
    then have h1: "holds ?w1 ?v1 ?ys"
      by (simp add: holds_def layout_def empty)
    show ?thesis
      using run h1 by (rule step) (simp_all add: nf)
  next
    case inplace
    with good have pl: "p < length xs" by simp
    from h inplace obtain a where buf: "buffer_m (data_m v) = Ptr a 0"
      by (cases rule: holds_cases) auto
    have pos: "ptr_add (Vector_begin v) p = Ptr a p"
      by (simp add: Vector_begin_def GetAddress_def buf)
    let ?v1 = "v\<lparr>size_m := Suc (length xs)\<rparr>"
    let ?w1 = "with_block (with_block (bump w) (next_addr w) [Raw]) a
          (layout ?ys (capacity_m (data_m v)))"
    have run: "Emplace T ct v w (ptr_add (Vector_begin v) p) x = Ok (Ptr a p) (?v1, ?w1)"
      unfolding pos using h nf ok pl inplace(2) buf by (rule Emplace_inplace_result)
    have h1: "holds ?w1 ?v1 ?ys"
      using inplace pl buf by (simp add: holds_def)
    show ?thesis
      using run h1 by (rule step) (simp_all add: nf buf)
  next
    case full
    from h full obtain a where buf: "buffer_m (data_m v) = Ptr a 0"
      and blk: "blocks w a = Some (layout xs (capacity_m (data_m v)))"
      by (cases rule: holds_cases) auto
    have pos: "ptr_add (Vector_begin v) p = Ptr a p"
      by (simp add: Vector_begin_def GetAddress_def buf)
    let ?b = "next_addr w"
    let ?v1 = "\<lparr>data_m = \<lparr>buffer_m = Ptr ?b 0, capacity_m = length xs * 2\<rparr>,
          size_m = Suc (length xs)\<rparr>"
    let ?w1 = "without_block (with_block (bump w) ?b (layout ?ys (length xs * 2))) a"
    have run: "Emplace T ct v w (ptr_add (Vector_begin v) p) x = Ok (Ptr ?b p) (?v1, ?w1)"
      unfolding pos using h nf ok full p buf room by (rule Emplace_full_result)
    have "a \<noteq> ?b" using heap_ok_live[OF ok blk] by simp
    then have bl: "blocks ?w1 ?b = Some (layout ?ys (length xs * 2))" by simp
    have n0: "Suc 0 \<le> length xs" using full(1) by (cases xs) simp_all
    have h1: "holds ?w1 ?v1 ?ys"
      using bl n0 full(1) p by (simp add: holds_def)
    show ?thesis
      using run h1 by (rule step) (simp_all add: nf)
  qed
qed

lemma RawMemory_ctor_inv:
  "RawMemory_ctor w n = Ok m w' \<Longrightarrow> RawMemory_inv m \<and> capacity_m m = n"
  by (auto simp: RawMemory_ctor_def Allocate_def operator_new_def RawMemory_inv_def
      split: if_splits outcome.splits)

lemma CopySwap_inv:
  "CopySwap T v w m = Ok u (v', m', w') \<Longrightarrow>
     data_m v' = \<lparr>buffer_m = buffer_m m, capacity_m = capacity_m m\<rparr> \<and> size_m v' = size_m v"
  "CopySwap T v w m = Throw e (v', m', w') \<Longrightarrow> v' = v"
  by (auto simp: CopySwap_def RawMemory_Swap_def split: outcome.splits option.splits)

lemma Reserve_inv_Ok:
  assumes "Reserve T v w n = Ok u (v', w')" and "Vector_inv v"
  shows "Vector_inv v' \<and> size_m v' = size_m v \<and> n \<le> capacity_m (data_m v')"
proof (cases "n > Capacity v")
  case False
  with assms show ?thesis
    by (simp add: Reserve_def Capacity_def RawMemory_Capacity_def)
next
  case True
  with assms(1) obtain m w1 v1 m1 w2 where rc: "RawMemory_ctor w n = Ok m w1"
    and cs: "CopySwap T v w1 m = Ok () (v1, m1, w2)" and v': "v' = v1"
    by (auto simp: Reserve_def split: outcome.splits option.splits)
  from RawMemory_ctor_inv[OF rc] CopySwap_inv(1)[OF cs] True assms(2) show ?thesis
    by (auto simp: v' Vector_inv_def RawMemory_inv_def Capacity_def RawMemory_Capacity_def)
qed

lemma Reserve_inv_Throw:
  "Reserve T v w n = Throw e (v', w') \<Longrightarrow> v' = v"
  by (auto simp: Reserve_def dest: CopySwap_inv(2) split: outcome.splits option.splits if_splits)

lemma Reserve_inv: "Vector_inv v \<Longrightarrow> ends_in (\<lambda>(v', w'). Vector_inv v') (Reserve T v w n)"
  by (cases "Reserve T v w n")
    (auto simp: ends_in_def dest: Reserve_inv_Ok Reserve_inv_Throw)

lemma Resize_inv: "Vector_inv v \<Longrightarrow> ends_in (\<lambda>(v', w'). Vector_inv v') (Resize T v w n)"
proof -
  assume inv: "Vector_inv v"
  show ?thesis
  proof (cases "Reserve T v w n")
    case (Ok u s)
    obtain v1 w1 where s: "s = (v1, w1)" by (cases s)
    from Reserve_inv_Ok[OF Ok[unfolded s] inv] inv show ?thesis
      by (auto simp: Resize_def ends_in_def Ok s Vector_inv_def
          split: option.splits outcome.splits)
  next
    case (Throw e s)
    obtain v1 w1 where s: "s = (v1, w1)" by (cases s)
    from Reserve_inv_Throw[OF Throw[unfolded s]] inv show ?thesis
      by (auto simp: Resize_def ends_in_def Throw s Vector_inv_def
          split: option.splits outcome.splits)
  next
    case Undefined
    with inv show ?thesis
      by (auto simp: Resize_def ends_in_def Vector_inv_def split: option.splits outcome.splits)
  qed
qed

lemma PushBackU_inv:
  assumes inv: "Vector_inv v"
  shows "ends_in (\<lambda>(v', w'). Vector_inv v') (PushBackU T v w f)"
proof (cases "size_m v \<noteq> Capacity v")
  case True
  with inv show ?thesis
    by (auto simp: PushBackU_def ends_in_def Vector_inv_def Capacity_def RawMemory_Capacity_def
        split: outcome.splits)
next
  case False
  define c where "c = (if size_m v = 0 then 1 else size_m v * 2)"
  have c: "size_m v < c" by (simp add: c_def)
  note unf = PushBackU_def[of T v w f, folded c_def]
  show ?thesis
  proof (cases "RawMemory_ctor w c")
    case (Ok m w1)
    note rc = RawMemory_ctor_inv[OF Ok]
    show ?thesis
    proof (cases "f w1 (GetAddress m)")
      case f: (Ok res w2)
      show ?thesis
      proof (cases "CopySwap T v w2 m")
        case cs: (Ok u s)
        obtain v1 m1 w3 where s: "s = (v1, m1, w3)" by (cases s)
        from CopySwap_inv(1)[OF cs[unfolded s]] rc c False show ?thesis
          by (auto simp: unf ends_in_def Ok f cs s Vector_inv_def RawMemory_inv_def
              split: option.splits)
      next
        case cs: (Throw e s)
        obtain v1 m1 w3 where s: "s = (v1, m1, w3)" by (cases s)
        from CopySwap_inv(2)[OF cs[unfolded s]] inv False show ?thesis
          by (auto simp: unf ends_in_def Ok f cs s split: option.splits)
      next
        case cs: Undefined
        with False show ?thesis by (simp add: unf ends_in_def Ok f)
      qed
    next
      case (Throw e w2)
      with inv False show ?thesis
        by (auto simp: unf ends_in_def Ok split: option.splits)
    next
      case Undefined
      with False show ?thesis by (simp add: unf ends_in_def Ok)
    qed
  next
    case (Throw e w1)
    with inv False show ?thesis by (simp add: unf ends_in_def)
  next
    case Undefined
    with False show ?thesis by (simp add: unf ends_in_def)
  qed
qed

lemma ends_in_relabel:
  "ends_in P r \<Longrightarrow>
   ends_in P (case r of Ok res s \<Rightarrow> Ok x s | Throw e s \<Rightarrow> Throw e s | Undefined \<Rightarrow> Undefined)"
  by (cases r) (simp_all add: ends_in_def)

lemma PopBack_inv: "Vector_inv v \<Longrightarrow> ends_in (\<lambda>(v', w'). Vector_inv v') (PopBack v w)"
  by (auto simp: PopBack_def ends_in_def Vector_inv_def split: option.splits)

lemma Erase_inv: "Vector_inv v \<Longrightarrow> ends_in (\<lambda>(v', w'). Vector_inv v') (Erase T v w pos)"
  by (auto simp: Erase_def ends_in_def Vector_inv_def split: option.splits outcome.splits)


lemma Emplace_inv:
  assumes inv: "Vector_inv v"
  shows "ends_in (\<lambda>(v', w'). Vector_inv v') (Emplace T ct v w pos x)"
proof (cases "size_m v < Capacity v \<and> size_m v \<noteq> 0")
  case True
  with inv show ?thesis
    by (auto simp: Emplace_def ends_in_def Vector_inv_def Capacity_def RawMemory_Capacity_def
        split: outcome.splits option.splits)
next
  case False
  define c where "c = (if size_m v = 0 then 1 else size_m v * 2)"
  have c: "size_m v < c" by (simp add: c_def)
  note unf = Emplace_def[of T ct v w pos x, folded c_def]
  show ?thesis
  proof (cases "RawMemory_ctor w c")
    case (Ok m w1)
    from RawMemory_ctor_inv[OF Ok] c inv False show ?thesis
      by (auto simp: unf ends_in_def Ok Vector_inv_def RawMemory_inv_def RawMemory_Swap_def
          split: outcome.splits option.splits)
  next
    case (Throw e w1)
    with inv False show ?thesis
      by (auto simp: unf ends_in_def split: option.splits)
  next
    case Undefined
    with False show ?thesis by (auto simp: unf ends_in_def split: option.splits)
  qed
qed

lemma OpAssign_inv:
  "OpAssignRhsSizeLessCap v w rhs = Ok u (v', w') \<Longrightarrow> v' = v"
  "OpAssignRhsSizeLessCap v w rhs = Throw e (v', w') \<Longrightarrow> v' = v"
  by (auto simp: OpAssignRhsSizeLessCap_def split: outcome.splits option.splits if_splits)

lemma Vector_copy_ctor_inv: "builds Vector_inv (Vector_copy_ctor w rhs)"
  by (auto simp: builds_def Vector_copy_ctor_def Vector_inv_def
      split: outcome.splits option.splits dest!: RawMemory_ctor_inv)

lemma Vector_sized_inv: "builds Vector_inv (Vector_sized T w n)"
  by (auto simp: builds_def Vector_sized_def Vector_inv_def
      split: outcome.splits option.splits dest!: RawMemory_ctor_inv)

lemma Vector_copy_ctor_shape:
  "Vector_copy_ctor w rhs = Ok v' w' \<Longrightarrow>
     Vector_inv v' \<and> size_m v' = size_m rhs \<and> capacity_m (data_m v') = size_m rhs"
  by (auto simp: Vector_copy_ctor_def Vector_inv_def
      split: outcome.splits option.splits dest!: RawMemory_ctor_inv)

lemma Vector_copy_assign_inv:
  assumes inv: "Vector_inv v"
  shows "ends_in (\<lambda>(v', w'). Vector_inv v') (Vector_copy_assign v w (Another rhs))"
proof (cases "size_m rhs > Capacity v")
  case True
  show ?thesis
  proof (cases "Vector_copy_ctor w rhs")
    case (Ok tc w1)
    from Vector_copy_ctor_shape[OF Ok] True show ?thesis
      by (auto simp: Vector_copy_assign_def ends_in_def Ok Vector_Swap_def RawMemory_Swap_def
          Vector_inv_def RawMemory_inv_def split: option.splits)
  next
    case (Throw e w1)
    with inv True show ?thesis by (simp add: Vector_copy_assign_def ends_in_def)
  next
    case Undefined
    with True show ?thesis by (simp add: Vector_copy_assign_def ends_in_def)
  qed
next
  case False
  show ?thesis
  proof (cases "OpAssignRhsSizeLessCap v w rhs")
    case (Ok u s)
    obtain v1 w1 where s: "s = (v1, w1)" by (cases s)
    from OpAssign_inv(1)[OF Ok[unfolded s]] inv False show ?thesis
      by (auto simp: Vector_copy_assign_def ends_in_def Ok s Vector_inv_def Capacity_def
          RawMemory_Capacity_def)
  next
    case (Throw e s)
    obtain v1 w1 where s: "s = (v1, w1)" by (cases s)
    from OpAssign_inv(2)[OF Throw[unfolded s]] inv False show ?thesis
      by (auto simp: Vector_copy_assign_def ends_in_def Throw s)
  next
    case Undefined
    with False show ?thesis by (simp add: Vector_copy_assign_def ends_in_def)
  qed
qed

lemma Vector_sized_result:
  assumes nf: "faults w = []" and room: "fits w n"
  shows "\<exists>v' w'. Vector_sized T w n = Ok v' w' \<and> Size v' = n \<and> Capacity v' = n \<and>
           holds w' v' (replicate n (value_init T)) \<and> faults w' = []"
proof (cases "n = 0")
  case True
  then show ?thesis
    using nf
    by (simp add: Vector_sized_def RawMemory_ctor_def Allocate_def
        uninitialized_value_construct_n_def GetAddress_def Size_def Capacity_def
        RawMemory_Capacity_def holds_def)
next
  case False
  define b where "b = next_addr w"
  define w1 where "w1 = with_block (bump w) b (replicate n Raw)"
  define w2 where "w2 = with_block w1 b ([] @ replicate n (Obj (value_init T)) @ [])"
  have rc: "RawMemory_ctor w n = Ok \<lparr>buffer_m = Ptr b 0, capacity_m = n\<rparr> w1"
    unfolding w1_def b_def using nf False room by (rule RawMemory_ctor_nofault)
  have "blocks w1 b = Some ([] @ replicate n Raw @ [])" by (simp add: w1_def)
  moreover have "faults w1 = []" using nf by (simp add: w1_def)
  ultimately have "value_construct_loop T w1 (Ptr b 0) (Ptr b (length ([] :: 'a cell list))) n =
      Ok (Ptr b (length ([] :: 'a cell list) + n)) w2"
    unfolding w2_def by (rule value_construct_loop_block)
  then have vc: "uninitialized_value_construct_n T w1 (Ptr b 0) n = Ok (Ptr b n) w2"
    by (simp add: uninitialized_value_construct_n_def)
  have run: "Vector_sized T w n =
      Ok \<lparr>data_m = \<lparr>buffer_m = Ptr b 0, capacity_m = n\<rparr>, size_m = n\<rparr> w2"
    by (simp add: Vector_sized_def rc GetAddress_def vc)
  have "holds w2 \<lparr>data_m = \<lparr>buffer_m = Ptr b 0, capacity_m = n\<rparr>, size_m = n\<rparr>
      (replicate n (value_init T))"
    using False by (simp add: holds_def w2_def layout_def)
  moreover have "faults w2 = []" using nf by (simp add: w2_def w1_def)
  ultimately show ?thesis
    using run by (simp add: Size_def Capacity_def RawMemory_Capacity_def)
qed

lemma blocks_consume [simp]: "blocks (consume w) = blocks w"
  by (simp add: consume_def split: list.splits)

lemma next_addr_consume [simp]: "next_addr (consume w) = next_addr w"
  by (simp add: consume_def split: list.splits)

lemma only_block_refl [simp]: "only_block b w w"
  by (simp add: only_block_def)

lemma only_block_trans: "only_block b w w1 \<Longrightarrow> only_block b w1 w2 \<Longrightarrow> only_block b w w2"
  by (simp add: only_block_def)

lemma only_block_consume [simp]: "only_block b w (consume w)"
  by (simp add: only_block_def)

lemma only_block_store: "only_block b w (store w (Ptr b i) c)"
  by (simp add: only_block_def store_def split: option.splits)

lemma ends_in_mono: "ends_in P r \<Longrightarrow> (\<And>s. P s \<Longrightarrow> Q s) \<Longrightarrow> ends_in Q r"
  by (cases r) (simp_all add: ends_in_def)

lemma construct_at_frame: "ends_in (only_block b w) (construct_at ct w (Ptr b i) x)"
  by (auto simp: construct_at_def ends_in_def only_block_store
      intro: only_block_trans[OF only_block_consume only_block_store]
      split: option.splits cell.splits)

lemma copy_construct_frame: "ends_in (only_block b w) (copy_construct w src (Ptr b i))"
  using construct_at_frame[of b w True i]
  by (auto simp: copy_construct_def ends_in_def split: option.splits cell.splits)

lemma destroy_n_frame: "destroy_n w (Ptr b i) n = Some w' \<Longrightarrow> only_block b w w'"
proof (induction n arbitrary: w i)
  case 0
  then show ?case by simp
next
  case (Suc n)
  from Suc.prems obtain w1 where d: "destroy_at w (Ptr b i) = Some w1"
    and r: "destroy_n w1 (Ptr b (i + 1)) n = Some w'"
    by (auto split: option.splits)
  from d have "only_block b w w1"
    by (auto simp: destroy_at_def only_block_store split: option.splits cell.splits)
  with Suc.IH[OF r] show ?case by (rule only_block_trans[rotated])
qed

lemma destroy_range_frame:
  "destroy_range w (Ptr b j0) p = Some w' \<Longrightarrow> only_block b w w'"
  by (auto simp: destroy_range_def dest: destroy_n_frame split: option.splits)

lemma copy_construct_loop_frame:
  "ends_in (only_block b w) (copy_construct_loop w first n (Ptr b j0) (Ptr b j))"
proof (induction n arbitrary: w first j)
  case 0
  then show ?case by (simp add: ends_in_def)
next
  case (Suc n)
  show ?case
  proof (cases "copy_construct w first (Ptr b j)")
    case (Ok p w1)
    with copy_construct_frame[of b w first j] have f: "only_block b w w1"
      by (simp add: ends_in_def)
    have "ends_in (only_block b w1)
        (copy_construct_loop w1 (ptr_add first 1) n (Ptr b j0) (Ptr b (j + 1)))"
      by (rule Suc.IH)
    then have "ends_in (only_block b w)
        (copy_construct_loop w1 (ptr_add first 1) n (Ptr b j0) (Ptr b (j + 1)))"
      by (rule ends_in_mono) (rule only_block_trans[OF f])
    with Ok show ?thesis by simp
  next
    case (Throw e w1)
    with copy_construct_frame[of b w first j] have f: "only_block b w w1"
      by (simp add: ends_in_def)
    show ?thesis
      using Throw f
      by (auto simp: ends_in_def split: option.splits
          dest!: destroy_range_frame intro: only_block_trans)
  next
    case Undefined
    then show ?thesis by (simp add: ends_in_def)
  qed
qed

lemma value_construct_loop_frame:
  "ends_in (only_block b w) (value_construct_loop T w (Ptr b j0) (Ptr b j) n)"
proof (induction n arbitrary: w j)
  case 0
  then show ?case by (simp add: ends_in_def)
next
  case (Suc n)
  show ?case
  proof (cases "construct_at True w (Ptr b j) (value_init T)")
    case (Ok p w1)
    with construct_at_frame[of b w True j "value_init T"] have f: "only_block b w w1"
      by (simp add: ends_in_def)
    have "ends_in (only_block b w1) (value_construct_loop T w1 (Ptr b j0) (Ptr b (j + 1)) n)"
      by (rule Suc.IH)
    then have "ends_in (only_block b w) (value_construct_loop T w1 (Ptr b j0) (Ptr b (j + 1)) n)"
      by (rule ends_in_mono) (rule only_block_trans[OF f])
    with Ok show ?thesis by simp
  next
    case (Throw e w1)
    with construct_at_frame[of b w True j "value_init T"] have f: "only_block b w w1"
      by (simp add: ends_in_def)
    show ?thesis
      using Throw f
      by (auto simp: ends_in_def split: option.splits
          dest!: destroy_range_frame intro: only_block_trans)
  next
    case Undefined
    then show ?thesis by (simp add: ends_in_def)
  qed
qed

lemma move_construct_loop_no_throw:
  "nothrow_move_constructible T \<Longrightarrow> move_construct_loop T w first n d c \<noteq> Throw e w'"
proof (induction n arbitrary: w first c)
  case 0
  then show ?case by simp
next
  case (Suc n)
  show ?case
  proof (cases "move_construct T w first c")
    case (Ok p w1)
    with Suc.IH[OF Suc.prems] show ?thesis by simp
  next
    case (Throw e1 w1)
    with Suc.prems show ?thesis
      by (auto simp: move_construct_def split: option.splits cell.splits)
  next
    case Undefined
    then show ?thesis by simp
  qed
qed

text \<open>
  When the element type is relocated by copy or by a move that cannot throw,
  \<^verbatim>\<open>CopyOrMove\<close> throws only while copying, and copying writes to the destination
  block alone.
\<close>

lemma CopyOrMove_Throw:
  assumes "CopyOrMove T w src n (Ptr b j) = Throw e w'"
    and "nothrow_move_constructible T \<or> copy_constructible T"
  shows "only_block b w w' \<and> \<not> (nothrow_move_constructible T \<or> \<not> copy_constructible T)"
proof (cases "nothrow_move_constructible T \<or> \<not> copy_constructible T")
  case True
  with assms(2) have "nothrow_move_constructible T" by auto
  from move_construct_loop_no_throw[OF this] assms(1) True show ?thesis
    by (simp add: CopyOrMove_def uninitialized_move_n_def)
next
  case False
  with assms(1) copy_construct_loop_frame[of b w src n j j] show ?thesis
    by (simp add: CopyOrMove_def uninitialized_copy_n_def ends_in_def)
qed

lemma CopyOrMove_Ok_copying:
  assumes "CopyOrMove T w src n (Ptr b j) = Ok q w'"
    and "\<not> (nothrow_move_constructible T \<or> \<not> copy_constructible T)"
  shows "only_block b w w'"
  using assms copy_construct_loop_frame[of b w src n j j]
  by (simp add: CopyOrMove_def uninitialized_copy_n_def ends_in_def)

lemma RawMemory_ctor_Throw: "RawMemory_ctor w n = Throw e w' \<Longrightarrow> blocks w' = blocks w"
  by (auto simp: RawMemory_ctor_def Allocate_def operator_new_def
      split: if_splits outcome.splits)

lemma RawMemory_ctor_Ok_fresh:
  "RawMemory_ctor w n = Ok m w' \<Longrightarrow> n \<noteq> 0 \<Longrightarrow>
   m = \<lparr>buffer_m = Ptr (next_addr w) 0, capacity_m = n\<rparr> \<and> only_block (next_addr w) w w'"
  by (auto simp: RawMemory_ctor_def Allocate_def operator_new_def only_block_def
      split: if_splits outcome.splits)

lemma RawMemory_ctor_Ok_zero:
  "RawMemory_ctor w 0 = Ok m w' \<Longrightarrow> m = \<lparr>buffer_m = Null, capacity_m = 0\<rparr> \<and> w' = w"
  by (auto simp: RawMemory_ctor_def Allocate_def)

lemma RawMemory_dtor_blocks:
  "RawMemory_dtor w \<lparr>buffer_m = Ptr b i, capacity_m = c\<rparr> = Some w' \<Longrightarrow>
   blocks w' = (blocks w)(b := None)"
  by (auto simp: RawMemory_dtor_def Deallocate_def operator_delete_def split: if_splits)

lemma unwound:
  assumes "heap_ok w" and "only_block (next_addr w) w w1"
    and "blocks w2 = (blocks w1)(next_addr w := None)"
  shows "blocks w2 = blocks w"
proof
  fix c
  from heap_ok_fresh[OF assms(1)] assms(2,3) show "blocks w2 c = blocks w c"
    by (cases "c = next_addr w") (simp_all add: only_block_def)
qed


lemma holds_blocks: "blocks w' = blocks w \<Longrightarrow> holds w' v xs = holds w v xs"
  by (simp add: holds_def split: ptr.splits)

lemma Vector_sized_Throw:
  assumes thr: "Vector_sized T w n = Throw e w'" and ok: "heap_ok w"
  shows "blocks w' = blocks w"
proof (cases "RawMemory_ctor w n")
  case (Ok d w1)
  note c1 = Ok
  show ?thesis
  proof (cases "n = 0")
    case True
    with thr c1 show ?thesis
      by (simp add: Vector_sized_def uninitialized_value_construct_n_def)
  next
    case False
    from RawMemory_ctor_Ok_fresh[OF c1 False]
    have d: "d = \<lparr>buffer_m = Ptr (next_addr w) 0, capacity_m = n\<rparr>"
      and f1: "only_block (next_addr w) w w1" by simp_all
    show ?thesis
    proof (cases "uninitialized_value_construct_n T w1 (Ptr (next_addr w) 0) n")
      case (Throw e2 w2)
      with value_construct_loop_frame[of "next_addr w" w1 T 0 0 n]
      have f2: "only_block (next_addr w) w1 w2"
        by (simp add: uninitialized_value_construct_n_def ends_in_def)
      from thr c1 Throw d have "RawMemory_dtor w2 d = Some w'"
        by (simp add: Vector_sized_def GetAddress_def split: option.splits)
      with d have "blocks w' = (blocks w2)(next_addr w := None)"
        by (simp add: RawMemory_dtor_blocks)
      then show ?thesis by (rule unwound[OF ok only_block_trans[OF f1 f2]])
    qed (use thr c1 d in \<open>simp_all add: Vector_sized_def GetAddress_def\<close>)
  qed
next
  case (Throw e1 w1)
  with thr show ?thesis by (simp add: Vector_sized_def RawMemory_ctor_Throw)
next
  case Undefined
  with thr show ?thesis by (simp add: Vector_sized_def)
qed

lemma Vector_copy_ctor_Throw:
  assumes thr: "Vector_copy_ctor w other = Throw e w'" and ok: "heap_ok w"
  shows "blocks w' = blocks w"
proof (cases "RawMemory_ctor w (size_m other)")
  case (Ok d w1)
  note c1 = Ok
  show ?thesis
  proof (cases "size_m other = 0")
    case True
    with thr c1 show ?thesis
      by (simp add: Vector_copy_ctor_def uninitialized_copy_n_def)
  next
    case False
    from RawMemory_ctor_Ok_fresh[OF c1 False]
    have d: "d = \<lparr>buffer_m = Ptr (next_addr w) 0, capacity_m = size_m other\<rparr>"
      and f1: "only_block (next_addr w) w w1" by simp_all
    show ?thesis
    proof (cases "uninitialized_copy_n w1 (GetAddress (data_m other)) (size_m other)
        (Ptr (next_addr w) 0)")
      case (Throw e2 w2)
      with copy_construct_loop_frame[of "next_addr w" w1 "GetAddress (data_m other)"
          "size_m other" 0 0]
      have f2: "only_block (next_addr w) w1 w2"
        by (simp add: uninitialized_copy_n_def ends_in_def)
      from thr c1 Throw d have "RawMemory_dtor w2 d = Some w'"
        by (simp add: Vector_copy_ctor_def GetAddress_def split: option.splits)
      with d have "blocks w' = (blocks w2)(next_addr w := None)"
        by (simp add: RawMemory_dtor_blocks)
      then show ?thesis by (rule unwound[OF ok only_block_trans[OF f1 f2]])
    qed (use thr c1 d in \<open>simp_all add: Vector_copy_ctor_def GetAddress_def\<close>)
  qed
next
  case (Throw e1 w1)
  with thr show ?thesis by (simp add: Vector_copy_ctor_def RawMemory_ctor_Throw)
next
  case Undefined
  with thr show ?thesis by (simp add: Vector_copy_ctor_def)
qed

lemma Reserve_Throw:
  assumes thr: "Reserve T v w n = Throw e (v', w')" and ok: "heap_ok w"
    and rel: "nothrow_move_constructible T \<or> copy_constructible T"
  shows "v' = v \<and> blocks w' = blocks w"
proof (cases "n > Capacity v")
  case False
  with thr show ?thesis by (simp add: Reserve_def)
next
  case True
  then have n0: "n \<noteq> 0" by simp
  show ?thesis
  proof (cases "RawMemory_ctor w n")
    case (Throw e1 w1)
    with thr True show ?thesis by (simp add: Reserve_def RawMemory_ctor_Throw)
  next
    case Undefined
    with thr True show ?thesis by (simp add: Reserve_def)
  next
    case (Ok d w1)
    note c1 = Ok
    from RawMemory_ctor_Ok_fresh[OF c1 n0]
    have d: "d = \<lparr>buffer_m = Ptr (next_addr w) 0, capacity_m = n\<rparr>"
      and f1: "only_block (next_addr w) w w1" by simp_all
    show ?thesis
    proof (cases "CopyOrMove T w1 (GetAddress (data_m v)) (size_m v) (Ptr (next_addr w) 0)")
      case (Throw e2 w2)
      from CopyOrMove_Throw[OF Throw rel] have f2: "only_block (next_addr w) w1 w2" by simp
      from thr True c1 Throw d have same: "v' = v" and "RawMemory_dtor w2 d = Some w'"
        by (simp_all add: Reserve_def CopySwap_def GetAddress_def split: option.splits)
      with d have "blocks w' = (blocks w2)(next_addr w := None)"
        by (simp add: RawMemory_dtor_blocks)
      then have "blocks w' = blocks w" by (rule unwound[OF ok only_block_trans[OF f1 f2]])
      with same show ?thesis by simp
    next
      case (Ok q w2)
      with thr True c1 d show ?thesis
        by (simp add: Reserve_def CopySwap_def GetAddress_def split: option.splits)
    next
      case Undefined
      with thr True c1 d show ?thesis
        by (simp add: Reserve_def CopySwap_def GetAddress_def)
    qed
  qed
qed

lemma copy_assign_realloc_Throw:
  assumes thr: "Vector_copy_assign v w (Another rhs) = Throw e (v', w')"
    and big: "size_m rhs > Capacity v" and ok: "heap_ok w"
  shows "v' = v \<and> blocks w' = blocks w"
proof (cases "Vector_copy_ctor w rhs")
  case (Throw e1 w1)
  with thr big have "v' = v" and "w' = w1" and "e = e1"
    by (simp_all add: Vector_copy_assign_def)
  with Vector_copy_ctor_Throw[OF _ ok] Throw show ?thesis by simp
next
  case (Ok c w1)
  with thr big show ?thesis by (simp add: Vector_copy_assign_def split: option.splits)
next
  case Undefined
  with thr big show ?thesis by (simp add: Vector_copy_assign_def)
qed


lemma Emplace_realloc_Throw:
  assumes thr: "Emplace T ct v w pos x = Throw e (v', w')"
    and re: "\<not> (size_m v < Capacity v \<and> size_m v \<noteq> 0)"
    and ok: "heap_ok w"
    and rel: "nothrow_move_constructible T \<or> copy_constructible T"
  shows "v' = v \<and> blocks w' = blocks w"
proof -
  define c where "c = (if size_m v = 0 then 1 else size_m v * 2)"
  define b where "b = next_addr w"
  have c0: "c \<noteq> 0" by (simp add: c_def)
  obtain en where en: "Vector_end v = Some en"
    using thr by (cases "Vector_end v") (simp_all add: Emplace_def)
  have rng: "\<not> \<not> (ptr_le (Vector_begin v) pos \<and> ptr_le pos en)"
    using thr en
    by (cases "ptr_le (Vector_begin v) pos \<and> ptr_le pos en") (simp_all add: Emplace_def)
  note unf = Emplace_def[of T ct v w pos x, folded c_def,
      unfolded en option.case if_not_P[OF rng] if_not_P[OF re]]
  note thr' = thr[unfolded unf]
  show ?thesis
  proof (cases "RawMemory_ctor w c")
    case (Throw e1 w1)
    with thr' show ?thesis by (simp add: RawMemory_ctor_Throw)
  next
    case Undefined
    with thr' show ?thesis by simp
  next
    case (Ok d w1)
    note c1 = Ok
    from RawMemory_ctor_Ok_fresh[OF c1 c0]
    have d: "d = \<lparr>buffer_m = Ptr b 0, capacity_m = c\<rparr>"
      and f1: "only_block b w w1" by (simp_all add: b_def)
    have ga: "GetAddress d = Ptr b 0" by (simp add: d GetAddress_def)
    have unw: "blocks u' = blocks w"
      if "only_block b w1 u" and "RawMemory_dtor u d = Some u'" for u u'
    proof -
      from that(2) have "blocks u' = (blocks u)(b := None)"
        by (simp add: d RawMemory_dtor_blocks)
      then show ?thesis
        unfolding b_def by (rule unwound[OF ok only_block_trans[OF f1 that(1), unfolded b_def]])
    qed
    obtain dist where dist: "ptr_diff pos (GetAddress (data_m v)) = Some dist"
      using thr' c1
      by (cases "ptr_diff pos (GetAddress (data_m v))") simp_all
    have le: "dist \<le> c"
      using thr' c1 dist
      by (cases "dist \<le> c") (simp_all add: RawMemory_plus_def d)
    then have np: "RawMemory_plus d dist = Some (Ptr b dist)"
      by (simp add: d RawMemory_plus_def)
    note pre = c1 dist np
    show ?thesis
    proof (cases "construct_at ct w1 (Ptr b dist) x")
      case (Throw e2 w2)
      with construct_at_frame[of b w1 ct dist x] have f2: "only_block b w1 w2"
        by (simp add: ends_in_def)
      from thr' pre Throw have same: "v' = v" and "RawMemory_dtor w2 d = Some w'"
        by (simp_all split: option.splits)
      with unw[OF f2] show ?thesis by simp
    next
      case Undefined
      with thr' pre show ?thesis by simp
    next
      case (Ok res w2)
      note c2 = Ok
      with construct_at_frame[of b w1 ct dist x] have f2: "only_block b w1 w2"
        by (simp add: ends_in_def)
      show ?thesis
      proof (cases "size_m v = 0")
        case True
        with thr' pre c2 show ?thesis by (simp split: option.splits)
      next
        case False
        note ne = False
        show ?thesis
        proof (cases "CopyOrMove T w2 (GetAddress (data_m v)) dist (Ptr b 0)")
          case (Throw e3 w3)
          from CopyOrMove_Throw[OF Throw rel] have f3: "only_block b w2 w3" by simp
          from thr' pre c2 ne Throw have same: "v' = v" and "RawMemory_dtor w3 d = Some w'"
            by (simp_all add: ga split: option.splits)
          with unw[OF only_block_trans[OF f2 f3]] show ?thesis by simp
        next
          case Undefined
          with thr' pre c2 ne show ?thesis by (simp add: ga)
        next
          case (Ok q3 w3)
          note c3 = Ok
          show ?thesis
          proof (cases "CopyOrMove T w3 pos (size_m v - dist) (Ptr b (dist + 1))")
            case (Throw e4 w4)
            from CopyOrMove_Throw[OF Throw rel] have f4: "only_block b w3 w4"
              and copying: "\<not> (nothrow_move_constructible T \<or> \<not> copy_constructible T)"
              by simp_all
            from CopyOrMove_Ok_copying[OF c3 copying] have f3: "only_block b w2 w3" .
            from thr' pre c2 ne c3 Throw have same: "v' = v"
              and "RawMemory_dtor w4 d = Some w'"
              by (simp_all add: ga split: option.splits)
            with unw[OF only_block_trans[OF f2 only_block_trans[OF f3 f4]]]
            show ?thesis by simp
          next
            case Undefined
            with thr' pre c2 ne c3 show ?thesis by (simp add: ga)
          next
            case (Ok q4 w4)
            with thr' pre c2 ne c3 show ?thesis
              by (simp add: ga split: option.splits)
          qed
        qed
      qed
    qed
  qed
qed

text \<open>
  Allocation keeps the free store well formed, whether or not the size asked for has
  wrapped around: the block it adds has at most \<open>SIZE_MAX\<close> bytes.
\<close>

lemma operator_new_heap_ok:
  assumes ok: "heap_ok w" and le: "bytes \<le> SIZE_MAX"
  shows "ends_in heap_ok (operator_new w bytes)"
proof -
  have pos: "0 < sizeof_T w" using ok by (rule heap_ok_sizeof)
  have "bytes div sizeof_T w * sizeof_T w \<le> bytes" by simp
  with le have "bytes div sizeof_T w * sizeof_T w \<le> SIZE_MAX" by (rule order_trans[rotated])
  with pos have f: "fits w (bytes div sizeof_T w)" by (simp add: fits_def)
  have c: "heap_ok (consume w)"
    using ok by (simp add: heap_ok_def fits_def consume_def split: list.splits)
  show ?thesis
    using ok c f
    by (auto simp: operator_new_def ends_in_def heap_ok_def fits_def consume_def less_Suc_eq
        split: list.splits if_splits)
qed

lemma Allocate_heap_ok: "heap_ok w \<Longrightarrow> ends_in heap_ok (Allocate w n)"
proof -
  assume ok: "heap_ok w"
  have "size_t_mul n (sizeof_T w) \<le> SIZE_MAX"
    by (simp add: size_t_mul_def less_Suc_eq_le[symmetric])
  with ok have "ends_in heap_ok (operator_new w (size_t_mul n (sizeof_T w)))"
    by (rule operator_new_heap_ok)
  with ok show ?thesis by (simp add: Allocate_def ends_in_def)
qed

lemma RawMemory_ctor_script:
  "faults w = False # fs \<Longrightarrow> n \<noteq> 0 \<Longrightarrow> fits w n \<Longrightarrow>
   RawMemory_ctor w n =
     Ok \<lparr>buffer_m = Ptr (next_addr w) 0, capacity_m = n\<rparr>
        (w\<lparr>blocks := (blocks w)(next_addr w \<mapsto> replicate n Raw),
           next_addr := Suc (next_addr w), faults := fs\<rparr>)"
  by (simp add: RawMemory_ctor_def Allocate_def operator_new_def fits_slots throws_now_def
      consume_def)

lemmas run_defs = Reserve_def Capacity_def RawMemory_Capacity_def RawMemory_ctor_script
  throws_now_def consume_def CopySwap_def
  CopyOrMove_def GetAddress_def uninitialized_move_n_def uninitialized_copy_n_def
  uninitialized_value_construct_n_def move_construct_def copy_construct_def construct_at_def
  cell_at_def store_def destroy_range_def destroy_at_def RawMemory_dtor_def Deallocate_def
  operator_delete_def RawMemory_Swap_def vector_at_def world_of_def world_of2_def
  Vector_sized_def Vector_copy_ctor_def Vector_copy_assign_def RawMemory_plus_def
  Vector_end_def Vector_begin_def

section \<open>Erase\<close>

text \<open>
  Claim C6. For a non-empty vector holding \<open>xs\<close> and a valid position \<open>pos\<close>, the address
  of element \<open>p\<close>, \<^verbatim>\<open>Erase\<close> returns normally when nothing throws; afterwards the vector
  holds \<open>xs\<close> without its element \<open>p\<close>: every element at an index below \<open>p\<close> is unchanged,
  every element previously at an index above \<open>p\<close> is one index lower, the size is one less
  and the capacity is the same. The returned position is \<open>pos\<close> itself, which is now the
  address of the element that followed the erased one, or \<^verbatim>\<open>end()\<close> if the last element
  was erased.
\<close>

theorem Erase_shifts_left:
  assumes "holds w v xs" and "faults w = []" and "Vector_index v p = Some pos"
  shows "\<exists>v' w'. Erase T v w pos = Ok pos (v', w') \<and>
           holds w' v' (take p xs @ drop (Suc p) xs) \<and>
           Size v' = Size v - 1 \<and> Capacity v' = Capacity v \<and>
           (\<forall>i<p. (take p xs @ drop (Suc p) xs) ! i = xs ! i) \<and>
           (\<forall>i. p < i \<and> i < length xs \<longrightarrow> (take p xs @ drop (Suc p) xs) ! (i - 1) = xs ! i) \<and>
           (if Suc p < length xs then Vector_index v' p = Some pos else Vector_end v' = Some pos)"
proof -
  let ?ys = "take p xs @ drop (Suc p) xs"
  let ?cap = "capacity_m (data_m v)"
  from assms(1) have sz: "size_m v = length xs" and cap: "length xs \<le> ?cap"
    by (auto simp: holds_def)
  from assms(3) sz have p: "p < length xs"
    by (simp add: Vector_index_def split: if_splits)
  then have "xs \<noteq> []" by auto
  with assms(1) obtain a where buf: "buffer_m (data_m v) = Ptr a 0"
    and blk: "blocks w a = Some (layout xs ?cap)"
    by (auto simp: holds_def split: ptr.splits)
  from assms(3) buf have pos: "pos = Ptr a p"
    by (simp add: Vector_index_def RawMemory_index_def split: if_splits)
  let ?v' = "v\<lparr>size_m := length xs - 1\<rparr>"
  let ?w' = "with_block w a (layout ?ys ?cap)"
  have run: "Erase T v w pos = Ok pos (?v', ?w')"
    unfolding pos using assms(1,2) p buf by (rule Erase_result)
  have len: "length ?ys = length xs - 1" using p by simp
  have h': "holds ?w' ?v' ?ys"
    using cap p buf by (simp add: holds_def len)
  have keep: "\<forall>i<p. ?ys ! i = xs ! i"
    using p by (simp add: nth_append)
  have shift: "\<forall>i. p < i \<and> i < length xs \<longrightarrow> ?ys ! (i - 1) = xs ! i"
    using p by (auto simp: nth_append min_def)
  have ret: "if Suc p < length xs then Vector_index ?v' p = Some pos else Vector_end ?v' = Some pos"
    using p cap buf pos
    by (auto simp: Vector_index_def RawMemory_index_def Vector_end_def RawMemory_plus_def)
  have "Size ?v' = Size v - 1" and "Capacity ?v' = Capacity v"
    using sz by (simp_all add: Size_def Capacity_def)
  with run h' keep shift ret show ?thesis by blast
qed

theorem Erase_shifts_left_witness:
  "holds (world_of [Obj 1, Obj 2, Obj 3, Obj 4]) (vector_at 0 4 4) [1, 2, 3, 4::nat] \<and>
   faults (world_of [Obj 1, Obj 2, Obj 3, Obj (4::nat)]) = [] \<and>
   Vector_index (vector_at 0 4 4) 1 = Some (Ptr 0 1) \<and>
   (\<exists>v' w'. Erase nat_traits (vector_at 0 4 4) (world_of [Obj 1, Obj 2, Obj 3, Obj 4]) (Ptr 0 1)
               = Ok (Ptr 0 1) (v', w') \<and>
            holds w' v' [1, 3, 4] \<and> Size v' = 3 \<and> Vector_index v' 1 = Some (Ptr 0 1))"
proof -
  let ?w = "world_of [Obj 1, Obj 2, Obj 3, Obj (4::nat)]"
  let ?v = "vector_at 0 4 4"
  have h1: "holds ?w ?v [1, 2, 3, 4]"
    by (simp add: holds_def world_of_def vector_at_def layout_def)
  have h2: "faults ?w = []" by (simp add: world_of_def)
  have h3: "Vector_index ?v 1 = Some (Ptr 0 1)"
    by (simp add: Vector_index_def RawMemory_index_def vector_at_def)
  from Erase_shifts_left[OF h1 h2 h3, of nat_traits]
  obtain v' w' where "Erase nat_traits ?v ?w (Ptr 0 1) = Ok (Ptr 0 1) (v', w')"
    and "holds w' v' [1, 3, 4]" and "Size v' = 3" and "Vector_index v' 1 = Some (Ptr 0 1)"
    by (auto simp: Size_def vector_at_def)
  with h1 h2 h3 show ?thesis by blast
qed

section \<open>Growth by appending\<close>

text \<open>
  Claim C3. Starting from a default-constructed vector and performing \<open>k \<ge> 1\<close> appends
  (any mix of \<^verbatim>\<open>PushBack\<close> and \<^verbatim>\<open>EmplaceBack\<close>) none of which throws, the run
  returns, the vector holds the appended values, its capacity is the smallest power of
  two that is at least \<open>k\<close>, and the capacity after \<open>i\<close> appends is at most the capacity
  after \<open>j\<close> appends whenever \<open>i \<le> j \<le> k\<close>. The buffers asked for have sizes in bytes
  that are values of \<^verbatim>\<open>size_t\<close>: some power of two that is at least \<open>k\<close> is a number of
  elements that fits.
\<close>

theorem appends_capacity_power_of_two:
  assumes nf: "faults w = []" and ok: "heap_ok w" and ne: "as \<noteq> []"
    and bound: "length as \<le> 2 ^ M" and room: "fits w (2 ^ M)"
  shows "\<exists>v' w' m. appends T Vector_default w as = Ok () (v', w') \<and>
           holds w' v' (map appended as) \<and> Size v' = length as \<and>
           Capacity v' = 2 ^ m \<and> length as \<le> 2 ^ m \<and>
           (\<forall>j. length as \<le> 2 ^ j \<longrightarrow> (2::nat) ^ m \<le> 2 ^ j) \<and>
           (\<forall>i j. i \<le> j \<and> j \<le> length as \<longrightarrow>
              (\<exists>ci cj. capacity_after T w (take i as) = Some ci \<and>
                       capacity_after T w (take j as) = Some cj \<and> ci \<le> cj))"
proof -
  have t0: "tight (length ([] :: 'a list)) (Capacity Vector_default)"
    by (simp add: tight_def Capacity_def RawMemory_Capacity_def Vector_default_def
        RawMemory_default_def)
  from bound have b0: "length ([] :: 'a list) + length as \<le> 2 ^ M" by simp
  from appends_result[OF holds_default nf ok t0 b0 room, of T]
  obtain v' w' where run: "appends T Vector_default w as = Ok () (v', w')"
    and h': "holds w' v' (map appended as)"
    and t': "tight (length as) (Capacity v')"
    by auto
  from ne have "0 < length as" by simp
  with tight_least[OF t'] obtain m where m: "Capacity v' = 2 ^ m" "length as \<le> 2 ^ m"
    "\<forall>j. length as \<le> 2 ^ j \<longrightarrow> (2::nat) ^ m \<le> 2 ^ j"
    by blast
  have sz: "Size v' = length as"
    using h' by (simp add: holds_def Size_def)
  have mono: "\<exists>ci cj. capacity_after T w (take i as) = Some ci \<and>
                       capacity_after T w (take j as) = Some cj \<and> ci \<le> cj"
    if ij: "i \<le> j \<and> j \<le> length as" for i j
  proof -
    from ij bound have bi: "length ([] :: 'a list) + length (take i as) \<le> 2 ^ M" by simp
    from appends_result[OF holds_default nf ok t0 bi room, of T]
    obtain vi wi where ri: "appends T Vector_default w (take i as) = Ok () (vi, wi)"
      and hi: "holds wi vi ([] @ map appended (take i as))"
      and oki: "heap_ok wi" and nfi: "faults wi = []" and si: "sizeof_T wi = sizeof_T w"
      and ti: "tight (length ([] :: 'a list) + length (take i as)) (Capacity vi)"
      by blast
    from ti have ti': "tight (length ([] @ map appended (take i as))) (Capacity vi)" by simp
    from ij bound
    have bj: "length ([] @ map appended (take i as)) + length (drop i (take j as)) \<le> 2 ^ M"
      by simp
    from room have fi: "fits wi (2 ^ M)" by (simp add: fits_same[OF si])
    from appends_result[OF hi nfi oki ti' bj fi, of T]
    obtain vj wj where rj: "appends T vi wi (drop i (take j as)) = Ok () (vj, wj)"
      and le: "Capacity vi \<le> Capacity vj"
      by blast
    have "take i (take j as) = take i as"
      using ij by (simp add: min_def)
    then have "take j as = take i as @ drop i (take j as)"
      using append_take_drop_id[of i "take j as"] by simp
    then have "appends T Vector_default w (take j as) = Ok () (vj, wj)"
      using appends_append[of T Vector_default w "take i as" "drop i (take j as)"] ri rj
      by simp
    with ri le show ?thesis by (simp add: capacity_after_def)
  qed
  then have mono': "\<forall>i j. i \<le> j \<and> j \<le> length as \<longrightarrow>
              (\<exists>ci cj. capacity_after T w (take i as) = Some ci \<and>
                       capacity_after T w (take j as) = Some cj \<and> ci \<le> cj)"
    by blast
  show ?thesis
    by (intro exI[of _ v'] exI[of _ w'] exI[of _ m] conjI run h' sz m mono')
qed

theorem appends_capacity_power_of_two_witness:
  "faults (empty_world :: nat world) = [] \<and> heap_ok (empty_world :: nat world) \<and>
   [PushCopy 5, PushCopy 10, PushCopy (15::nat)] \<noteq> [] \<and>
   length [PushCopy 5, PushCopy 10, PushCopy (15::nat)] \<le> 2 ^ 2 \<and>
   fits (empty_world :: nat world) (2 ^ 2) \<and>
   (\<exists>v' w'. appends nat_traits Vector_default empty_world [PushCopy 5, PushCopy 10, PushCopy 15]
               = Ok () (v', w') \<and>
            holds w' v' [5, 10, 15] \<and> Size v' = 3 \<and> Capacity v' = 4)"
proof -
  let ?as = "[PushCopy 5, PushCopy 10, PushCopy (15::nat)]"
  have h1: "faults (empty_world :: nat world) = []" by (simp add: empty_world_def)
  have h2: "heap_ok (empty_world :: nat world)"
    by (simp add: empty_world_def heap_ok_def fits_def SIZE_MAX_def)
  have h3: "?as \<noteq> []" by simp
  have h4: "length ?as \<le> 2 ^ 2" by simp
  have h5: "fits (empty_world :: nat world) (2 ^ 2)"
    by (simp add: empty_world_def fits_def SIZE_MAX_def)
  from appends_capacity_power_of_two[OF h1 h2 h3 h4 h5, of nat_traits]
  obtain v' w' m where run: "appends nat_traits Vector_default empty_world ?as = Ok () (v', w')"
    and h': "holds w' v' (map appended ?as)" and sz: "Size v' = length ?as"
    and c: "Capacity v' = 2 ^ m" and lo: "length ?as \<le> 2 ^ m"
    and least: "\<forall>j. length ?as \<le> 2 ^ j \<longrightarrow> (2::nat) ^ m \<le> 2 ^ j"
    by blast
  from least have "length ?as \<le> 2 ^ 2 \<longrightarrow> (2::nat) ^ m \<le> 2 ^ 2" by (rule spec)
  then have p: "(2::nat) ^ m \<le> 2 ^ 2" by simp
  have "m \<le> 2"
  proof (rule power_le_imp_le_exp)
    show "(1::nat) < 2" by simp
    show "(2::nat) ^ m \<le> 2 ^ 2" by (rule p)
  qed
  then consider "m = 0" | "m = 1" | "m = 2" by linarith
  then have "(2::nat) ^ m = 4" using lo by cases simp_all
  with run h' sz c h1 h2 h5 show ?thesis by simp
qed

section \<open>Sized construction\<close>

text \<open>
  Claim C7. The sized constructor hands \<open>n\<close> to \<^verbatim>\<open>Allocate\<close>, which computes
  \<^verbatim>\<open>n * sizeof(T)\<close> in \<^verbatim>\<open>size_t\<close>. For an element of four bytes and \<open>n = 2\<^sup>6\<^sup>2 + 1\<close> the
  product wraps around to 4: nothing throws, the buffer gets room for one element while
  the capacity is recorded as \<open>n\<close>, and the constructor then value-initialises \<open>n\<close>
  elements from the start of that buffer, the second of them outside the block. So the
  constructor does not yield \<open>n\<close> value-initialised elements for this \<open>n\<close>. When
  \<^verbatim>\<open>n * sizeof(T)\<close> is a value of \<^verbatim>\<open>size_t\<close> and nothing throws, it does
  (\<open>Vector_sized_result\<close>).
\<close>

theorem Vector_sized_size_overflow:
  "size_t_mul (2 ^ 62 + 1) (sizeof_T (empty_world :: nat world)) = 4 \<and>
   RawMemory_ctor (empty_world :: nat world) (2 ^ 62 + 1) =
     Ok \<lparr>buffer_m = Ptr 0 0, capacity_m = 2 ^ 62 + 1\<rparr> (world_of [Raw]) \<and>
   Vector_sized nat_traits empty_world (2 ^ 62 + 1) = Undefined"
proof -
  have n: "(2::nat) ^ 62 + 1 = Suc (Suc (2 ^ 62 - 1))" by simp
  have m: "size_t_mul (2 ^ 62 + 1) (sizeof_T (empty_world :: nat world)) = 4"
    by (simp add: size_t_mul_def SIZE_MAX_def empty_world_def)
  have rc: "RawMemory_ctor (empty_world :: nat world) (2 ^ 62 + 1) =
      Ok \<lparr>buffer_m = Ptr 0 0, capacity_m = 2 ^ 62 + 1\<rparr> (world_of [Raw])"
    unfolding RawMemory_ctor_def Allocate_def m
    by (simp add: operator_new_def empty_world_def world_of_def throws_now_def consume_def)
  have loop: "value_construct_loop nat_traits (world_of [Raw]) (Ptr 0 0) (Ptr 0 0) (Suc (Suc k)) =
      Undefined" for k
    by (simp add: construct_at_def cell_at_def store_def world_of_def throws_now_def
        consume_def)
  have "uninitialized_value_construct_n nat_traits (world_of [Raw]) (Ptr 0 0) (2 ^ 62 + 1) =
      Undefined"
    unfolding uninitialized_value_construct_n_def by (subst n) (rule loop)
  with rc have "Vector_sized nat_traits empty_world (2 ^ 62 + 1) = Undefined"
    by (simp add: Vector_sized_def GetAddress_def)
  with m rc show ?thesis by (intro conjI)
qed

section \<open>Moving a vector\<close>

text \<open>
  Claim C4, as the code has it. Move construction gives the new vector exactly the
  state of the source (its buffer, capacity and size, hence its elements, the world being
  untouched) and leaves the source default, with size and capacity 0. Move assignment
  from another vector exchanges the two states: the target gets the state of the source,
  and the source gets the state the target had. Move assignment from the vector itself
  changes nothing. Neither touches the world or can throw: both are functions of the two
  objects alone.
\<close>

theorem move_transfers_state:
  "Vector_move_ctor a = (a, Vector_default) \<and>
   holds w (fst (Vector_move_ctor a)) xs = holds w a xs \<and>
   Size (snd (Vector_move_ctor a)) = 0 \<and> Capacity (snd (Vector_move_ctor a)) = 0 \<and>
   Vector_move_assign b (Another a) = (a, Another b) \<and>
   Vector_move_assign b Itself = (b, Itself)"
proof -
  obtain da sa where a: "a = \<lparr>data_m = da, size_m = sa\<rparr>" by (cases a)
  obtain pa ca where da: "da = \<lparr>buffer_m = pa, capacity_m = ca\<rparr>" by (cases da)
  obtain db sb where b: "b = \<lparr>data_m = db, size_m = sb\<rparr>" by (cases b)
  obtain pb cb where db: "db = \<lparr>buffer_m = pb, capacity_m = cb\<rparr>" by (cases db)
  show ?thesis
    by (simp add: a da b db Vector_move_ctor_def RawMemory_move_ctor_def Vector_default_def
        RawMemory_default_def Size_def Capacity_def RawMemory_Capacity_def
        Vector_move_assign_def Vector_Swap_def RawMemory_Swap_def)
qed

text \<open>
  The claim as stated fails for move assignment: with a target that holds one element in
  a buffer of capacity 1, the source ends with size 1 and capacity 1.
\<close>

theorem move_assign_source_not_emptied:
  "Vector_move_assign (vector_at 0 1 1) (Another (vector_at 1 2 2)) =
     (vector_at 1 2 2, Another (vector_at 0 1 1)) \<and>
   Size (vector_at 0 1 1) = 1 \<and> Capacity (vector_at 0 1 1) = 1"
  by (simp add: Vector_move_assign_def Vector_Swap_def RawMemory_Swap_def vector_at_def
      Size_def Capacity_def RawMemory_Capacity_def)

section \<open>Emplace into an empty vector\<close>

text \<open>
  Claim C9. For an empty vector, whatever its capacity, \<^verbatim>\<open>Emplace\<close> at \<^verbatim>\<open>begin()\<close>
  takes the reallocating branch when nothing throws: it allocates a fresh block of one
  slot, constructs the element there, and releases the buffer the vector had. The
  vector then holds the one element with capacity 1, and its former buffer is gone.
\<close>

theorem Emplace_empty_capacity_one:
  assumes h: "holds w v []" and nf: "faults w = []" and ok: "heap_ok w"
  shows "\<exists>v' w'. Emplace T ct v w (Vector_begin v) x = Ok (Ptr (next_addr w) 0) (v', w') \<and>
           buffer_m (data_m v') = Ptr (next_addr w) 0 \<and> blocks w (next_addr w) = None \<and>
           Capacity v' = 1 \<and> Size v' = 1 \<and> holds w' v' [x] \<and>
           (\<forall>a. buffer_m (data_m v) = Ptr a 0 \<longrightarrow> blocks w' a = None)"
proof -
  let ?b = "next_addr w"
  let ?v' = "\<lparr>data_m = \<lparr>buffer_m = Ptr ?b 0, capacity_m = 1\<rparr>, size_m = 1\<rparr>"
  let ?w' = "freed (with_block (bump w) ?b [Obj x]) (buffer_m (data_m v))"
  have run: "Emplace T ct v w (Vector_begin v) x = Ok (Ptr ?b 0) (?v', ?w')"
    using h nf ok by (rule Emplace_empty_result)
  have fresh: "\<forall>a. buffer_m (data_m v) = Ptr a 0 \<longrightarrow> a \<noteq> ?b"
    using h ok by (rule holds_fresh)
  have "\<forall>a i. buffer_m (data_m v) = Ptr a i \<longrightarrow> a \<noteq> ?b"
    using h fresh by (cases rule: holds_cases) auto
  then have "blocks ?w' ?b = Some [Obj x]" by (simp add: blocks_freed_other)
  then have h': "holds ?w' ?v' [x]" by (simp add: holds_def layout_def)
  have gone: "\<forall>a. buffer_m (data_m v) = Ptr a 0 \<longrightarrow> blocks ?w' a = None"
    by (simp add: freed_def)
  have "blocks w ?b = None" using ok by (rule heap_ok_fresh)
  with run h' gone show ?thesis
    by (simp add: Capacity_def RawMemory_Capacity_def Size_def)
qed

theorem Emplace_empty_capacity_one_witness:
  "holds (world_of [Raw, Raw, Raw]) (vector_at 0 3 0) ([] :: nat list) \<and>
   faults (world_of [Raw, Raw, Raw :: nat cell]) = [] \<and>
   heap_ok (world_of [Raw, Raw, Raw :: nat cell]) \<and> Capacity (vector_at 0 3 0) = 3 \<and>
   (\<exists>v' w'. Emplace nat_traits True (vector_at 0 3 0) (world_of [Raw, Raw, Raw])
               (Vector_begin (vector_at 0 3 0)) 7 = Ok (Ptr 1 0) (v', w') \<and>
            Capacity v' = 1 \<and> holds w' v' [7] \<and> blocks w' 0 = None)"
proof -
  let ?w = "world_of [Raw, Raw, Raw :: nat cell]"
  let ?v = "vector_at 0 3 0"
  have h1: "holds ?w ?v []"
    by (simp add: holds_def world_of_def vector_at_def layout_def numeral_3_eq_3)
  have h2: "faults ?w = []" by (simp add: world_of_def)
  have h3: "heap_ok ?w" by (simp add: heap_ok_def world_of_def fits_def SIZE_MAX_def)
  have c: "Capacity ?v = 3" by (simp add: Capacity_def RawMemory_Capacity_def vector_at_def)
  have n: "next_addr ?w = 1" by (simp add: world_of_def)
  from Emplace_empty_capacity_one[OF h1 h2 h3, of nat_traits True 7]
  obtain v' w' where "Emplace nat_traits True ?v ?w (Vector_begin ?v) 7 = Ok (Ptr 1 0) (v', w')"
    and "Capacity v' = 1" and "holds w' v' [7]" and "blocks w' 0 = None"
    unfolding n by (auto simp: vector_at_def)
  then have "\<exists>v' w'. Emplace nat_traits True ?v ?w (Vector_begin ?v) 7 = Ok (Ptr 1 0) (v', w') \<and>
            Capacity v' = 1 \<and> holds w' v' [7] \<and> blocks w' 0 = None"
    by blast
  with h1 h2 h3 c show ?thesis by blast
qed

section \<open>Copy assignment\<close>

text \<open>
  Claim C5. Let the target hold \<open>xs\<close> and a distinct vector \<open>rhs\<close>, with a buffer of its
  own, hold \<open>ys\<close>. When nothing throws, copy assignment returns; afterwards the target
  holds \<open>ys\<close>, its size is the size of \<open>rhs\<close>, and \<open>rhs\<close> still holds \<open>ys\<close>. If the size of
  \<open>rhs\<close> does not exceed the capacity of the target, the target keeps its buffer and its
  capacity and nothing is allocated; otherwise the target gets a fresh buffer whose
  capacity is the size of \<open>rhs\<close>. Assigning a vector to itself returns with the vector
  and the world unchanged.
\<close>

theorem copy_assign_copies:
  assumes ht: "holds w this xs" and hr: "holds w rhs ys" and nf: "faults w = []"
    and ok: "heap_ok w"
    and sep: "buffer_m (data_m this) = Null \<or> buffer_m (data_m this) \<noteq> buffer_m (data_m rhs)"
  shows "(\<exists>this' w'. Vector_copy_assign this w (Another rhs) = Ok () (this', w') \<and>
            holds w' this' ys \<and> Size this' = Size rhs \<and> holds w' rhs ys \<and>
            (if size_m rhs \<le> Capacity this
             then data_m this' = data_m this \<and> next_addr w' = next_addr w
             else Capacity this' = size_m rhs \<and>
                  buffer_m (data_m this') = Ptr (next_addr w) 0)) \<and>
         Vector_copy_assign this w Itself = Ok () (this, w)"
proof -
  from hr have szr: "size_m rhs = length ys" by (simp add: holds_def)
  have self: "Vector_copy_assign this w Itself = Ok () (this, w)"
    by (simp add: Vector_copy_assign_def)
  have main: "\<exists>this' w'. Vector_copy_assign this w (Another rhs) = Ok () (this', w') \<and>
            holds w' this' ys \<and> Size this' = Size rhs \<and> holds w' rhs ys \<and>
            (if size_m rhs \<le> Capacity this
             then data_m this' = data_m this \<and> next_addr w' = next_addr w
             else Capacity this' = size_m rhs \<and>
                  buffer_m (data_m this') = Ptr (next_addr w) 0)"
  proof (cases "size_m rhs \<le> Capacity this")
    case True
    then have fit: "length ys \<le> capacity_m (data_m this)"
      by (simp add: szr Capacity_def RawMemory_Capacity_def)
    from ht show ?thesis
    proof (cases rule: holds_cases)
      case null
      with fit have ys: "ys = []" by simp
      have "OpAssignRhsSizeLessCap this w rhs = Ok () (this, w)"
      proof (rule OpAssign_path_same)
        show "RawMemory_plus (data_m rhs) (min (size_m rhs) (size_m this)) =
            Some (buffer_m (data_m rhs))"
          using hr by (cases rule: holds_cases) (simp_all add: RawMemory_plus_def szr ys)
        show "std_copy w (GetAddress (data_m rhs)) (buffer_m (data_m rhs))
            (GetAddress (data_m this)) = Ok Null w"
          using hr null by (cases rule: holds_cases) (simp_all add: std_copy_def GetAddress_def)
        show "size_m rhs = size_m this" using null by (simp add: szr ys)
      qed
      with True have "Vector_copy_assign this w (Another rhs) =
          Ok () (this\<lparr>size_m := size_m rhs\<rparr>, w)"
        by (intro copy_assign_path_inplace) simp_all
      moreover have "holds w (this\<lparr>size_m := size_m rhs\<rparr>) ys"
        using null by (simp add: holds_def szr ys)
      ultimately show ?thesis
        using hr True by (simp add: Size_def)
    next
      case (block a)
      with sep have ne: "buffer_m (data_m rhs) \<noteq> Ptr a 0" by auto
      let ?w' = "with_block w a (layout ys (capacity_m (data_m this)))"
      have "OpAssignRhsSizeLessCap this w rhs = Ok () (this, ?w')"
        using ht hr nf fit block(1) ne by (rule OpAssign_result)
      with True have "Vector_copy_assign this w (Another rhs) =
          Ok () (this\<lparr>size_m := size_m rhs\<rparr>, ?w')"
        by (intro copy_assign_path_inplace) simp_all
      moreover have "holds ?w' (this\<lparr>size_m := size_m rhs\<rparr>) ys"
        using block fit by (simp add: holds_def szr)
      moreover have "holds ?w' rhs ys"
        using hr ne by (intro holds_transfer[OF hr]) auto
      ultimately show ?thesis
        using True by (simp add: Size_def)
    qed
  next
    case False
    then have big: "size_m rhs > Capacity this" by simp
    then have ne: "ys \<noteq> []" using szr by auto
    let ?b = "next_addr w"
    let ?tc = "\<lparr>data_m = \<lparr>buffer_m = Ptr ?b 0, capacity_m = length ys\<rparr>, size_m = length ys\<rparr>"
    let ?w1 = "with_block (bump w) ?b (map Obj ys)"
    let ?w' = "freed ?w1 (buffer_m (data_m this))"
    have cc: "Vector_copy_ctor w rhs = Ok ?tc ?w1"
      using hr nf ok ne by (rule Vector_copy_ctor_result)
    have fresh: "\<forall>a. buffer_m (data_m this) = Ptr a 0 \<longrightarrow> a \<noteq> ?b"
      using ht ok by (rule holds_fresh)
    have freshr: "\<forall>a. buffer_m (data_m rhs) = Ptr a 0 \<longrightarrow> a \<noteq> ?b"
      using hr ok by (rule holds_fresh)
    have ht1: "holds ?w1 this xs"
      using fresh by (intro holds_transfer[OF ht]) simp
    have sw: "Vector_Swap this ?tc = (?tc, this)" by (rule Vector_Swap_plain)
    have dt: "Vector_dtor ?w1 (snd (Vector_Swap this ?tc)) = Some ?w'"
      unfolding sw snd_conv using ht1 by (rule Vector_dtor_result)
    have run: "Vector_copy_assign this w (Another rhs) =
        Ok () ((fst (Vector_Swap this ?tc))\<lparr>size_m := size_m rhs\<rparr>, ?w')"
      using big cc dt by (rule copy_assign_path_realloc)
    have "\<forall>a i. buffer_m (data_m this) = Ptr a i \<longrightarrow> a \<noteq> ?b"
      using ht fresh by (cases rule: holds_cases) auto
    then have "blocks ?w' ?b = Some (map Obj ys)" by (simp add: blocks_freed_other)
    then have h': "holds ?w' ?tc ys"
      using ne by (simp add: holds_def layout_def)
    have hr1: "holds ?w1 rhs ys"
      using freshr by (intro holds_transfer[OF hr]) simp
    have "\<forall>a. buffer_m (data_m rhs) = Ptr a 0 \<longrightarrow> blocks ?w' a = blocks ?w1 a"
      using ht sep by (cases rule: holds_cases) (auto simp: freed_def)
    with hr1 have hr': "holds ?w' rhs ys" by (rule holds_transfer)
    show ?thesis
      using run h' hr' False
      by (simp add: sw szr Size_def Capacity_def RawMemory_Capacity_def)
  qed
  from main self show ?thesis by (rule conjI)
qed

theorem copy_assign_copies_witness:
  "holds (world_of2 [Obj 1, Obj 2, Raw] [Obj 7, Obj 8, Obj 9]) (vector_at 0 3 2) [1, 2 :: nat] \<and>
   holds (world_of2 [Obj 1, Obj 2, Raw] [Obj 7, Obj 8, Obj 9]) (vector_at 1 3 3) [7, 8, 9 :: nat] \<and>
   faults (world_of2 [Obj 1, Obj 2, Raw] [Obj 7, Obj 8, Obj (9 :: nat)]) = [] \<and>
   heap_ok (world_of2 [Obj 1, Obj 2, Raw] [Obj 7, Obj 8, Obj (9 :: nat)]) \<and>
   buffer_m (data_m (vector_at 0 3 2)) \<noteq> buffer_m (data_m (vector_at 1 3 3)) \<and>
   (\<exists>this' w'. Vector_copy_assign (vector_at 0 3 2)
                  (world_of2 [Obj 1, Obj 2, Raw] [Obj 7, Obj 8, Obj (9 :: nat)])
                  (Another (vector_at 1 3 3)) = Ok () (this', w') \<and>
      holds w' this' [7, 8, 9] \<and> Size this' = 3 \<and> holds w' (vector_at 1 3 3) [7, 8, 9] \<and>
      data_m this' = data_m (vector_at 0 3 2))"
proof -
  let ?w = "world_of2 [Obj 1, Obj 2, Raw] [Obj 7, Obj 8, Obj (9 :: nat)]"
  let ?t = "vector_at 0 3 2"
  let ?r = "vector_at 1 3 3"
  have h1: "holds ?w ?t [1, 2]"
    by (simp add: holds_def world_of2_def vector_at_def layout_def)
  have h2: "holds ?w ?r [7, 8, 9]"
    by (simp add: holds_def world_of2_def vector_at_def layout_def)
  have h3: "faults ?w = []" by (simp add: world_of2_def)
  have h4: "heap_ok ?w"
    by (auto simp: heap_ok_def world_of2_def fits_def SIZE_MAX_def split: if_splits)
  have h5: "buffer_m (data_m ?t) \<noteq> buffer_m (data_m ?r)" by (simp add: vector_at_def)
  then have h5': "buffer_m (data_m ?t) = Null \<or> buffer_m (data_m ?t) \<noteq> buffer_m (data_m ?r)"
    by simp
  have fit: "size_m ?r \<le> Capacity ?t"
    by (simp add: vector_at_def Capacity_def RawMemory_Capacity_def)
  from copy_assign_copies[OF h1 h2 h3 h4 h5']
  obtain this' w' where "Vector_copy_assign ?t ?w (Another ?r) = Ok () (this', w')"
    and "holds w' this' [7, 8, 9]" and "Size this' = Size ?r" and "holds w' ?r [7, 8, 9]"
    and "if size_m ?r \<le> Capacity ?t
         then data_m this' = data_m ?t \<and> next_addr w' = next_addr ?w
         else Capacity this' = size_m ?r \<and> buffer_m (data_m this') = Ptr (next_addr ?w) 0"
    by blast
  with fit have "Vector_copy_assign ?t ?w (Another ?r) = Ok () (this', w') \<and>
      holds w' this' [7, 8, 9] \<and> Size this' = 3 \<and> holds w' ?r [7, 8, 9] \<and>
      data_m this' = data_m ?t"
    by (simp add: Size_def vector_at_def)
  then have "\<exists>this' w'. Vector_copy_assign ?t ?w (Another ?r) = Ok () (this', w') \<and>
      holds w' this' [7, 8, 9] \<and> Size this' = 3 \<and> holds w' ?r [7, 8, 9] \<and>
      data_m this' = data_m ?t"
    by blast
  with h1 h2 h3 h4 h5 show ?thesis by blast
qed

section \<open>Insert followed by Erase\<close>

text \<open>
  Claim C1 fails at the very position it singles out. For a non-empty vector with spare
  capacity, \<^verbatim>\<open>Emplace\<close> at \<^verbatim>\<open>end()\<close> passes its assertion and takes the branch that
  does not reallocate; there it calls \<^verbatim>\<open>std::move_backward(pos, data_ + size_ - 1,
  data_ + size_)\<close> with \<^verbatim>\<open>pos == data_ + size_\<close>, a range whose first iterator lies
  behind its last. For the vector \<open>[1, 2]\<close> of capacity 4 the position \<open>Ptr 0 2\<close> is
  \<^verbatim>\<open>end()\<close>, and the call does not return a position to erase at.
\<close>

theorem Emplace_at_end_with_spare_capacity:
  "holds (world_of [Obj 1, Obj 2, Raw, Raw]) (vector_at 0 4 2) [1, 2 :: nat] \<and>
   Vector_end (vector_at 0 4 2) = Some (Ptr 0 2) \<and>
   Emplace nat_traits True (vector_at 0 4 2) (world_of [Obj 1, Obj 2, Raw, Raw]) (Ptr 0 2)
     (3 :: nat) = Undefined"
proof -
  let ?w = "world_of [Obj 1, Obj 2, Raw, Raw :: nat cell]"
  let ?v = "vector_at 0 4 2"
  have h: "holds ?w ?v [1, 2]"
    by (simp add: holds_def world_of_def vector_at_def layout_def numeral_2_eq_2)
  have nf: "faults ?w = []" by (simp add: world_of_def)
  have ok: "heap_ok ?w" by (simp add: heap_ok_def world_of_def fits_def SIZE_MAX_def)
  have e: "Vector_end ?v = Some (Ptr 0 2)"
    by (simp add: Vector_end_def RawMemory_plus_def vector_at_def)
  have ne: "[1, 2 :: nat] \<noteq> []" by simp
  have sp: "length [1, 2 :: nat] < capacity_m (data_m ?v)" by (simp add: vector_at_def)
  have "Emplace nat_traits True ?v ?w (Ptr 0 2) 3 = Undefined"
    using h nf ok ne sp e by (rule Emplace_end_spare_undefined)
  with h e show ?thesis by simp
qed

section \<open>Allocations made by Emplace\<close>

text \<open>
  Claim C10 fails in the branch of \<^verbatim>\<open>Emplace\<close> that does not reallocate. The
  temporary is allocated with \<^verbatim>\<open>new T(...)\<close> and later only destroyed with
  \<^verbatim>\<open>std::destroy_n(tmp, 1)\<close>; its storage is never given to \<^verbatim>\<open>delete\<close>. For the
  vector \<open>[1, 2]\<close> of capacity 4 in a world whose only block is the buffer,
  \<^verbatim>\<open>Emplace(begin(), 9)\<close> returns with the vector holding \<open>[9, 1, 2]\<close> and with a second
  block, the temporary's slot, still allocated; destroying the vector releases the
  buffer and leaves that block behind.
\<close>

theorem Emplace_leaves_temporary_allocated:
  "dom (blocks (world_of [Obj 1, Obj 2, Raw, Raw :: nat cell])) = {0} \<and>
   Emplace nat_traits True (vector_at 0 4 2) (world_of [Obj 1, Obj 2, Raw, Raw]) (Ptr 0 0) 9 =
     Ok (Ptr 0 0)
        (vector_at 0 4 3,
         with_block (with_block (bump (world_of [Obj 1, Obj 2, Raw, Raw])) 1 [Raw]) 0
           [Obj 9, Obj 1, Obj 2, Raw]) \<and>
   Vector_dtor
     (with_block (with_block (bump (world_of [Obj 1, Obj 2, Raw, Raw :: nat cell])) 1 [Raw]) 0
        [Obj 9, Obj 1, Obj 2, Raw]) (vector_at 0 4 3) =
     Some (without_block (with_block (bump (world_of [Obj 1, Obj 2, Raw, Raw])) 1 [Raw]) 0) \<and>
   dom (blocks (without_block
          (with_block (bump (world_of [Obj 1, Obj 2, Raw, Raw :: nat cell])) 1 [Raw]) 0)) = {1}"
proof -
  let ?w = "world_of [Obj 1, Obj 2, Raw, Raw :: nat cell]"
  let ?v = "vector_at 0 4 2"
  let ?w1 = "with_block (with_block (bump ?w) 1 [Raw]) 0 [Obj 9, Obj 1, Obj 2, Raw]"
  have h: "holds ?w ?v [1, 2]"
    by (simp add: holds_def world_of_def vector_at_def layout_def numeral_2_eq_2)
  have nf: "faults ?w = []" by (simp add: world_of_def)
  have ok: "heap_ok ?w" by (simp add: heap_ok_def world_of_def fits_def SIZE_MAX_def)
  have p: "0 < length [1, 2 :: nat]" by simp
  have sp: "length [1, 2 :: nat] < capacity_m (data_m ?v)" by (simp add: vector_at_def)
  have buf: "buffer_m (data_m ?v) = Ptr 0 0" by (simp add: vector_at_def)
  have na: "next_addr ?w = 1" by (simp add: world_of_def)
  have "Emplace nat_traits True ?v ?w (Ptr 0 0) 9 =
     Ok (Ptr 0 0) (?v\<lparr>size_m := Suc (length [1, 2 :: nat])\<rparr>,
        with_block (with_block (bump ?w) (next_addr ?w) [Raw]) 0
          (layout (take 0 [1, 2] @ 9 # drop 0 [1, 2]) (capacity_m (data_m ?v))))"
    using h nf ok p sp buf by (rule Emplace_inplace_result)
  then have run: "Emplace nat_traits True ?v ?w (Ptr 0 0) 9 = Ok (Ptr 0 0) (vector_at 0 4 3, ?w1)"
    unfolding na by (simp add: vector_at_def layout_def)
  have h1: "holds ?w1 (vector_at 0 4 3) [9, 1, 2]"
    by (simp add: holds_def vector_at_def layout_def)
  have "Vector_dtor ?w1 (vector_at 0 4 3) = Some (freed ?w1 (buffer_m (data_m (vector_at 0 4 3))))"
    using h1 by (rule Vector_dtor_result)
  then have dt: "Vector_dtor ?w1 (vector_at 0 4 3) =
      Some (without_block (with_block (bump ?w) 1 [Raw]) 0)"
    by (simp add: freed_def vector_at_def without_with_other)
  have d0: "dom (blocks ?w) = {0}" by (simp add: world_of_def)
  have d1: "dom (blocks (without_block (with_block (bump ?w) 1 [Raw]) 0)) = {1}"
    by (auto simp: world_of_def split: if_splits)
  from d0 run dt d1 show ?thesis by simp
qed

section \<open>Preservation of the invariants\<close>

text \<open>
  Claim C8. Every operation of \<^verbatim>\<open>RawMemory\<close> and \<^verbatim>\<open>Vector\<close> that changes or creates an
  object, started on objects that satisfy the invariants, ends (by return or by
  exception) with objects that satisfy them: a raw buffer has a non-null address exactly
  when its capacity is positive, and the size of a vector is at most its capacity. This
  holds for every world and every script of failures.
\<close>

theorem invariants_preserved:
  assumes t: "Vector_inv this" and r: "Vector_inv rhs" and m: "RawMemory_inv m"
    and m': "RawMemory_inv m'"
  shows "RawMemory_inv RawMemory_default \<and>
    builds RawMemory_inv (RawMemory_ctor w n) \<and>
    RawMemory_inv (fst (RawMemory_move_ctor m)) \<and> RawMemory_inv (snd (RawMemory_move_ctor m)) \<and>
    RawMemory_inv (fst (RawMemory_Swap m m')) \<and> RawMemory_inv (snd (RawMemory_Swap m m')) \<and>
    RawMemory_inv (fst (RawMemory_move_assign m (Another m'))) \<and>
    operand_all RawMemory_inv (snd (RawMemory_move_assign m (Another m'))) \<and>
    RawMemory_inv (fst (RawMemory_move_assign m Itself)) \<and>
    Vector_inv Vector_default \<and>
    builds Vector_inv (Vector_sized T w n) \<and>
    builds Vector_inv (Vector_copy_ctor w rhs) \<and>
    Vector_inv (fst (Vector_move_ctor rhs)) \<and> Vector_inv (snd (Vector_move_ctor rhs)) \<and>
    ends_in (\<lambda>(v, w'). Vector_inv v) (Vector_copy_assign this w (Another rhs)) \<and>
    ends_in (\<lambda>(v, w'). Vector_inv v) (Vector_copy_assign this w Itself) \<and>
    Vector_inv (fst (Vector_move_assign this (Another rhs))) \<and>
    operand_all Vector_inv (snd (Vector_move_assign this (Another rhs))) \<and>
    Vector_inv (fst (Vector_move_assign this Itself)) \<and>
    Vector_inv (fst (Vector_Swap this rhs)) \<and> Vector_inv (snd (Vector_Swap this rhs)) \<and>
    ends_in (\<lambda>(v, w'). Vector_inv v) (Resize T this w n) \<and>
    ends_in (\<lambda>(v, w'). Vector_inv v) (Reserve T this w n) \<and>
    ends_in (\<lambda>(v, w'). Vector_inv v) (PushBackU T this w f) \<and>
    ends_in (\<lambda>(v, w'). Vector_inv v) (PushBack T this w x) \<and>
    ends_in (\<lambda>(v, w'). Vector_inv v) (PushBack_rvalue T this w x) \<and>
    ends_in (\<lambda>(v, w'). Vector_inv v) (EmplaceBack T ct this w x) \<and>
    ends_in (\<lambda>(v, w'). Vector_inv v) (PopBack this w) \<and>
    ends_in (\<lambda>(v, w'). Vector_inv v) (Emplace T ct this w pos x) \<and>
    ends_in (\<lambda>(v, w'). Vector_inv v) (Insert T this w pos x) \<and>
    ends_in (\<lambda>(v, w'). Vector_inv v) (Insert_rvalue T this w pos x) \<and>
    ends_in (\<lambda>(v, w'). Vector_inv v) (Erase T this w pos)"
proof -
  have rm: "RawMemory_inv RawMemory_default"
    "builds RawMemory_inv (RawMemory_ctor w n)"
    "RawMemory_inv (fst (RawMemory_move_ctor m)) \<and> RawMemory_inv (snd (RawMemory_move_ctor m))"
    "RawMemory_inv (fst (RawMemory_Swap m m')) \<and> RawMemory_inv (snd (RawMemory_Swap m m'))"
    "RawMemory_inv (fst (RawMemory_move_assign m (Another m'))) \<and>
     operand_all RawMemory_inv (snd (RawMemory_move_assign m (Another m')))"
    "RawMemory_inv (fst (RawMemory_move_assign m Itself))"
    using m m'
    by (auto simp: RawMemory_inv_def RawMemory_default_def builds_def RawMemory_move_ctor_def
        RawMemory_Swap_def RawMemory_move_assign_def operand_all_def
        split: outcome.splits dest!: RawMemory_ctor_inv)
  have v1: "Vector_inv Vector_default"
    by (simp add: Vector_inv_def RawMemory_inv_def Vector_default_def RawMemory_default_def)
  have v2: "Vector_inv (fst (Vector_move_ctor rhs)) \<and> Vector_inv (snd (Vector_move_ctor rhs))"
    "Vector_inv (fst (Vector_move_assign this (Another rhs))) \<and>
     operand_all Vector_inv (snd (Vector_move_assign this (Another rhs)))"
    "Vector_inv (fst (Vector_move_assign this Itself))"
    "Vector_inv (fst (Vector_Swap this rhs)) \<and> Vector_inv (snd (Vector_Swap this rhs))"
    using t r
    by (auto simp: Vector_inv_def RawMemory_inv_def Vector_move_ctor_def RawMemory_move_ctor_def
        Vector_move_assign_def Vector_Swap_def RawMemory_Swap_def operand_all_def)
  have self: "ends_in (\<lambda>(v, w'). Vector_inv v) (Vector_copy_assign this w Itself)"
    using t by (simp add: Vector_copy_assign_def ends_in_def)
  have pb: "ends_in (\<lambda>(v, w'). Vector_inv v) (PushBack T this w x)"
    unfolding PushBack_def using t by (intro ends_in_relabel PushBackU_inv)
  have pbr: "ends_in (\<lambda>(v, w'). Vector_inv v) (PushBack_rvalue T this w x)"
    unfolding PushBack_rvalue_def using t by (intro ends_in_relabel PushBackU_inv)
  have eb: "ends_in (\<lambda>(v, w'). Vector_inv v) (EmplaceBack T ct this w x)"
    unfolding EmplaceBack_def using t by (rule PushBackU_inv)
  have ins: "ends_in (\<lambda>(v, w'). Vector_inv v) (Insert T this w pos x)"
    "ends_in (\<lambda>(v, w'). Vector_inv v) (Insert_rvalue T this w pos x)"
    unfolding Insert_def Insert_rvalue_def using t by (rule Emplace_inv)+
  show ?thesis
    by (intro conjI rm(3-5)[THEN conjunct1] rm(3-5)[THEN conjunct2] rm(1,2,6) v1
        v2(1,2,4)[THEN conjunct1] v2(1,2,4)[THEN conjunct2] v2(3) self pb pbr eb ins
        Vector_sized_inv Vector_copy_ctor_inv Vector_copy_assign_inv[OF t] Resize_inv[OF t]
        Reserve_inv[OF t] PushBackU_inv[OF t] PopBack_inv[OF t] Emplace_inv[OF t]
        Erase_inv[OF t])
qed

theorem invariants_preserved_witness:
  "Vector_inv (vector_at 0 3 2) \<and> Vector_inv (vector_at 1 3 3) \<and>
   RawMemory_inv (data_m (vector_at 0 3 2)) \<and> RawMemory_inv RawMemory_default \<and>
   (\<exists>res v' w'. EmplaceBack nat_traits True (vector_at 0 3 2)
        (world_of2 [Obj 1, Obj 2, Raw] [Obj 7, Obj 8, Obj (9 :: nat)]) 5 = Ok res (v', w') \<and>
      Vector_inv v' \<and> Size v' = 3 \<and> Capacity v' = 3)"
proof -
  let ?w = "world_of2 [Obj 1, Obj 2, Raw] [Obj 7, Obj 8, Obj (9 :: nat)]"
  let ?t = "vector_at 0 3 2"
  have t: "Vector_inv ?t" by (simp add: Vector_inv_def RawMemory_inv_def vector_at_def)
  have r: "Vector_inv (vector_at 1 3 3)"
    by (simp add: Vector_inv_def RawMemory_inv_def vector_at_def)
  have m: "RawMemory_inv (data_m ?t)" by (simp add: RawMemory_inv_def vector_at_def)
  have m': "RawMemory_inv RawMemory_default"
    by (simp add: RawMemory_inv_def RawMemory_default_def)
  have h: "holds ?w ?t [1, 2]"
    by (simp add: holds_def world_of2_def vector_at_def layout_def)
  have nf: "faults ?w = []" by (simp add: world_of2_def)
  have ok: "heap_ok ?w"
    by (auto simp: heap_ok_def world_of2_def fits_def SIZE_MAX_def split: if_splits)
  have room: "fits ?w (if length [1, 2 :: nat] \<noteq> Capacity ?t then Capacity ?t
                       else if [1, 2 :: nat] = [] then 1 else 2 * length [1, 2 :: nat])"
    by (simp add: fits_def world_of2_def SIZE_MAX_def Capacity_def RawMemory_Capacity_def
        vector_at_def)
  from EmplaceBack_result[OF h nf ok room, of nat_traits True 5]
  obtain res v' w' where run: "EmplaceBack nat_traits True ?t ?w 5 = Ok res (v', w')"
    and h': "holds w' v' ([1, 2] @ [5])"
    and c: "Capacity v' = (if length [1, 2 :: nat] \<noteq> Capacity ?t then Capacity ?t
                          else if [1, 2 :: nat] = [] then 1 else 2 * length [1, 2 :: nat])"
    by blast
  from invariants_preserved[OF t r m m', where w = ?w and T = nat_traits and ct = True and x = 5]
  have "ends_in (\<lambda>(v, w'). Vector_inv v) (EmplaceBack nat_traits True ?t ?w 5)"
    by blast
  with run have inv': "Vector_inv v'" by (simp add: ends_in_def)
  have "Size v' = 3" using h' by (simp add: holds_def Size_def)
  moreover have "Capacity v' = 3"
    using c by (simp add: Capacity_def RawMemory_Capacity_def vector_at_def)
  ultimately have "\<exists>res v' w'. EmplaceBack nat_traits True ?t ?w 5 = Ok res (v', w') \<and>
      Vector_inv v' \<and> Size v' = 3 \<and> Capacity v' = 3"
    using run inv' by blast
  with t r m m' show ?thesis by blast
qed

section \<open>Failure of the operations that build a new buffer\<close>

text \<open>
  Claim C2. Size and capacity are fields of the vector, and its elements are read from
  the blocks of the world (\<open>holds_blocks\<close>), so a vector \<open>v' = v\<close> in a world with the
  blocks of \<open>w\<close> has the observable state of \<open>v\<close> in \<open>w\<close>. When the sized constructor or
  the copy constructor throws, the blocks are what they were: the new buffer is gone
  and the source is untouched. When copy assignment from a source larger than the
  capacity throws, the target and the blocks are what they were. When \<^verbatim>\<open>Reserve\<close>, or
  \<^verbatim>\<open>Emplace\<close> on its reallocating branch, throws, the target and the blocks are what they
  were provided the element type is relocated by copy or by a move constructor that
  cannot throw, that is, it is nothrow-move-constructible or copy-constructible.
\<close>

theorem failure_leaves_vector_unchanged:
  assumes ok: "heap_ok w"
  shows "(Vector_sized T w n = Throw e w' \<longrightarrow> blocks w' = blocks w) \<and>
         (Vector_copy_ctor w rhs = Throw e w' \<longrightarrow> blocks w' = blocks w) \<and>
         (size_m rhs > Capacity v \<and> Vector_copy_assign v w (Another rhs) = Throw e (v', w')
            \<longrightarrow> v' = v \<and> blocks w' = blocks w) \<and>
         ((nothrow_move_constructible T \<or> copy_constructible T) \<and>
          Reserve T v w n = Throw e (v', w') \<longrightarrow> v' = v \<and> blocks w' = blocks w) \<and>
         ((nothrow_move_constructible T \<or> copy_constructible T) \<and>
          \<not> (size_m v < Capacity v \<and> size_m v \<noteq> 0) \<and>
          Emplace T ct v w pos x = Throw e (v', w') \<longrightarrow> v' = v \<and> blocks w' = blocks w)"
proof (intro conjI impI)
  assume "Vector_sized T w n = Throw e w'"
  then show "blocks w' = blocks w" using ok by (rule Vector_sized_Throw)
next
  assume "Vector_copy_ctor w rhs = Throw e w'"
  then show "blocks w' = blocks w" using ok by (rule Vector_copy_ctor_Throw)
next
  assume a: "size_m rhs > Capacity v \<and> Vector_copy_assign v w (Another rhs) = Throw e (v', w')"
  from copy_assign_realloc_Throw[OF a[THEN conjunct2] a[THEN conjunct1] ok]
  show "v' = v" and "blocks w' = blocks w" by simp_all
next
  assume a: "(nothrow_move_constructible T \<or> copy_constructible T) \<and>
    Reserve T v w n = Throw e (v', w')"
  from Reserve_Throw[OF a[THEN conjunct2] ok a[THEN conjunct1]]
  show "v' = v" and "blocks w' = blocks w" by simp_all
next
  assume a: "(nothrow_move_constructible T \<or> copy_constructible T) \<and>
    \<not> (size_m v < Capacity v \<and> size_m v \<noteq> 0) \<and>
    Emplace T ct v w pos x = Throw e (v', w')"
  then have r: "nothrow_move_constructible T \<or> copy_constructible T"
    and b: "\<not> (size_m v < Capacity v \<and> size_m v \<noteq> 0)"
    and t: "Emplace T ct v w pos x = Throw e (v', w')"
    by blast+
  from Emplace_realloc_Throw[OF t b ok r]
  show "v' = v" and "blocks w' = blocks w" by simp_all
qed

theorem failure_leaves_vector_unchanged_witness:
  "heap_ok ((world_of2 [Obj 1, Obj 2] [Obj 7, Obj 8, Obj (9 :: nat)])
              \<lparr>faults := [False, False, True]\<rparr>) \<and>
   (nothrow_move_constructible copied_traits \<or> copy_constructible copied_traits) \<and>
   size_m (vector_at 1 3 3) > Capacity (vector_at 0 2 2) \<and>
   \<not> (size_m (vector_at 0 2 2) < Capacity (vector_at 0 2 2) \<and> size_m (vector_at 0 2 2) \<noteq> 0) \<and>
   (\<exists>w'. Vector_sized copied_traits
            ((world_of2 [Obj 1, Obj 2] [Obj 7, Obj 8, Obj 9])\<lparr>faults := [False, False, True]\<rparr>) 3
            = Throw ElemThrow w' \<and>
          blocks w' = blocks (world_of2 [Obj 1, Obj 2] [Obj 7, Obj 8, Obj 9])) \<and>
   (\<exists>w'. Vector_copy_ctor
            ((world_of2 [Obj 1, Obj 2] [Obj 7, Obj 8, Obj (9 :: nat)])
               \<lparr>faults := [False, False, True]\<rparr>) (vector_at 1 3 3)
            = Throw ElemThrow w' \<and>
          blocks w' = blocks (world_of2 [Obj 1, Obj 2] [Obj 7, Obj 8, Obj 9])) \<and>
   (\<exists>w'. Vector_copy_assign (vector_at 0 2 2)
            ((world_of2 [Obj 1, Obj 2] [Obj 7, Obj 8, Obj (9 :: nat)])
               \<lparr>faults := [False, False, True]\<rparr>) (Another (vector_at 1 3 3))
            = Throw ElemThrow (vector_at 0 2 2, w') \<and>
          blocks w' = blocks (world_of2 [Obj 1, Obj 2] [Obj 7, Obj 8, Obj 9])) \<and>
   (\<exists>w'. Reserve copied_traits (vector_at 0 2 2)
            ((world_of2 [Obj 1, Obj 2] [Obj 7, Obj 8, Obj 9])\<lparr>faults := [False, False, True]\<rparr>) 4
            = Throw ElemThrow (vector_at 0 2 2, w') \<and>
          blocks w' = blocks (world_of2 [Obj 1, Obj 2] [Obj 7, Obj 8, Obj 9])) \<and>
   (\<exists>w'. Emplace copied_traits True (vector_at 0 2 2)
            ((world_of2 [Obj 1, Obj 2] [Obj 7, Obj 8, Obj 9])\<lparr>faults := [False, False, True]\<rparr>)
            (Ptr 0 1) 5
            = Throw ElemThrow (vector_at 0 2 2, w') \<and>
          blocks w' = blocks (world_of2 [Obj 1, Obj 2] [Obj 7, Obj 8, Obj 9]))"
proof -
  let ?w = "(world_of2 [Obj 1, Obj 2] [Obj 7, Obj 8, Obj (9 :: nat)])
              \<lparr>faults := [False, False, True]\<rparr>"
  let ?v = "vector_at 0 2 2"
  let ?r = "vector_at 1 3 3"
  have b: "blocks ?w = blocks (world_of2 [Obj 1, Obj 2] [Obj 7, Obj 8, Obj (9 :: nat)])"
    by simp
  have ok: "heap_ok ?w"
    by (auto simp: heap_ok_def world_of2_def fits_def SIZE_MAX_def split: if_splits)
  have rel: "nothrow_move_constructible copied_traits \<or> copy_constructible copied_traits"
    by (simp add: copied_traits_def)
  have big: "size_m ?r > Capacity ?v"
    by (simp add: vector_at_def Capacity_def RawMemory_Capacity_def)
  have full: "\<not> (size_m ?v < Capacity ?v \<and> size_m ?v \<noteq> 0)"
    by (simp add: vector_at_def Capacity_def RawMemory_Capacity_def)
  have f3: "fits ?w 3" and f4: "fits ?w 4"
    by (simp_all add: fits_def SIZE_MAX_def world_of2_def)
  from f3 have "\<exists>w'. Vector_sized copied_traits ?w 3 = Throw ElemThrow w'"
    by (simp add: run_defs copied_traits_def eval_nat_numeral)
  then obtain w1 where r1: "Vector_sized copied_traits ?w 3 = Throw ElemThrow w1" ..
  from f3 have "\<exists>w'. Vector_copy_ctor ?w ?r = Throw ElemThrow w'"
    by (simp add: run_defs eval_nat_numeral)
  then obtain w2 where r2: "Vector_copy_ctor ?w ?r = Throw ElemThrow w2" ..
  from f3 have "\<exists>w'. Vector_copy_assign ?v ?w (Another ?r) = Throw ElemThrow (?v, w')"
    by (simp add: run_defs eval_nat_numeral)
  then obtain w3 where r3: "Vector_copy_assign ?v ?w (Another ?r) = Throw ElemThrow (?v, w3)" ..
  from f4 have "\<exists>w'. Reserve copied_traits ?v ?w 4 = Throw ElemThrow (?v, w')"
    by (simp add: run_defs copied_traits_def eval_nat_numeral)
  then obtain w4 where r4: "Reserve copied_traits ?v ?w 4 = Throw ElemThrow (?v, w4)" ..
  from f4 have "\<exists>w'. Emplace copied_traits True ?v ?w (Ptr 0 1) 5 = Throw ElemThrow (?v, w')"
    by (simp add: Emplace_def run_defs copied_traits_def eval_nat_numeral)
  then obtain w5 where r5: "Emplace copied_traits True ?v ?w (Ptr 0 1) 5 = Throw ElemThrow (?v, w5)"
    ..
  from failure_leaves_vector_unchanged[OF ok, of copied_traits 3 ElemThrow w1] r1
  have c1: "blocks w1 = blocks ?w" by blast
  from failure_leaves_vector_unchanged[OF ok, of _ _ ElemThrow w2 ?r] r2
  have c2: "blocks w2 = blocks ?w" by blast
  from failure_leaves_vector_unchanged[OF ok, where rhs = ?r and v = ?v and e = ElemThrow
      and v' = ?v and w' = w3] big r3
  have c3: "blocks w3 = blocks ?w" by blast
  from failure_leaves_vector_unchanged[OF ok, where T = copied_traits and v = ?v and n = 4
      and e = ElemThrow and v' = ?v and w' = w4] rel r4
  have c4: "blocks w4 = blocks ?w" by blast
  from failure_leaves_vector_unchanged[OF ok, where T = copied_traits and v = ?v and ct = True
      and pos = "Ptr 0 1" and x = 5 and e = ElemThrow and v' = ?v and w' = w5] rel full r5
  have c5: "blocks w5 = blocks ?w" by blast
  show ?thesis
    using ok rel big full r1 r2 r3 r4 r5 c1 c2 c3 c4 c5 unfolding b by blast
qed

text \<open>
  The claim as stated fails for a move-only element type whose move constructor throws.
  The vector holds \<open>[1, 2]\<close> with capacity 2; in \<^verbatim>\<open>Reserve(4)\<close> the allocation and the
  move of the first element succeed and the move of the second throws. \<^verbatim>\<open>Reserve\<close>
  leaves by that exception with the vector holding \<open>[0, 2]\<close>: the first element stays
  moved-from.
\<close>

theorem Reserve_throwing_move_changes_elements:
  "holds ((world_of [Obj 1, Obj 2])\<lparr>faults := [False, False, True]\<rparr>) (vector_at 0 2 2)
     [1, 2 :: nat] \<and>
   Reserve move_only_traits (vector_at 0 2 2)
     ((world_of [Obj 1, Obj 2])\<lparr>faults := [False, False, True]\<rparr>) 4 =
     Throw ElemThrow (vector_at 0 2 2, (world_of [Obj 0, Obj 2])\<lparr>next_addr := 2\<rparr>) \<and>
   holds ((world_of [Obj 0, Obj 2])\<lparr>next_addr := 2\<rparr>) (vector_at 0 2 2) [0, 2 :: nat]"
proof -
  let ?w = "(world_of [Obj 1, Obj (2 :: nat)])\<lparr>faults := [False, False, True]\<rparr>"
  let ?w' = "(world_of [Obj 0, Obj (2 :: nat)])\<lparr>next_addr := 2\<rparr>"
  have h: "holds ?w (vector_at 0 2 2) [1, 2]"
    by (simp add: holds_def world_of_def vector_at_def layout_def)
  have "fits ?w 4" by (simp add: fits_def SIZE_MAX_def world_of_def)
  then have r: "Reserve move_only_traits (vector_at 0 2 2) ?w 4 =
      Throw ElemThrow (vector_at 0 2 2, ?w')"
    by (simp add: run_defs move_only_traits_def eval_nat_numeral fun_upd_twist)
  have h': "holds ?w' (vector_at 0 2 2) [0, 2]"
    by (simp add: holds_def world_of_def vector_at_def layout_def)
  from h r h' show ?thesis by (intro conjI)
qed

end
